theory Spec2Isabelle
  imports Complex_Main "HOL-Library.Log_Nat"
begin

section \<open>JavaScript values and strings\<close>

text \<open>
  A JavaScript string is modelled as a \<^typ>\<open>string\<close> of ASCII code units: case
  mapping and whitespace are those of ASCII, a character outside ASCII is passed through
  unchanged. The value of a parameter typed \<open>string | null | undefined\<close> is a
  \<open>raw_value\<close>.
\<close>

datatype raw_value = Null | Undefined | Str string

text \<open>Truthiness of such a value: only a non-empty string is truthy.\<close>

fun truthy :: "raw_value \<Rightarrow> bool" where
  "truthy (Str s) = (s \<noteq> [])"
| "truthy Null = False"
| "truthy Undefined = False"

text \<open>\<open>String(value)\<close>.\<close>

fun String_of :: "raw_value \<Rightarrow> string" where
  "String_of (Str s) = s"
| "String_of Null = ''null''"
| "String_of Undefined = ''undefined''"

definition isUpper :: "char \<Rightarrow> bool" where
  "isUpper c = (65 \<le> (of_char c :: nat) \<and> (of_char c :: nat) \<le> 90)"

definition isLower :: "char \<Rightarrow> bool" where
  "isLower c = (97 \<le> (of_char c :: nat) \<and> (of_char c :: nat) \<le> 122)"

definition isDigit :: "char \<Rightarrow> bool" where
  "isDigit c = (48 \<le> (of_char c :: nat) \<and> (of_char c :: nat) \<le> 57)"

definition toLowerChar :: "char \<Rightarrow> char" where
  "toLowerChar c = (if isUpper c then char_of ((of_char c :: nat) + 32) else c)"

definition toUpperChar :: "char \<Rightarrow> char" where
  "toUpperChar c = (if isLower c then char_of ((of_char c :: nat) - 32) else c)"

definition toLowerCase :: "string \<Rightarrow> string" where
  "toLowerCase s = map toLowerChar s"

definition toUpperCase :: "string \<Rightarrow> string" where
  "toUpperCase s = map toUpperChar s"

text \<open>The ASCII white space that \<open>String.prototype.trim\<close> removes: TAB, LF, VT, FF, CR, SP.\<close>

definition isWhiteSpace :: "char \<Rightarrow> bool" where
  "isWhiteSpace c = ((of_char c :: nat) \<in> {9, 10, 11, 12, 13, 32})"

definition trim :: "string \<Rightarrow> string" where
  "trim s = rev (dropWhile isWhiteSpace (rev (dropWhile isWhiteSpace s)))"

text \<open>\<open>haystack.includes(needle)\<close>, and its case-insensitive form (a regular expression
  that is a plain word under the \<open>i\<close> flag).\<close>

fun str_includes :: "string \<Rightarrow> string \<Rightarrow> bool" where
  "str_includes [] needle = (needle = [])"
| "str_includes (c # cs) needle = (take (length needle) (c # cs) = needle \<or> str_includes cs needle)"

definition str_includes_ci :: "string \<Rightarrow> string \<Rightarrow> bool" where
  "str_includes_ci haystack needle = str_includes (toLowerCase haystack) (toLowerCase needle)"

text \<open>\<open>s.split(c)\<close> for a one-character separator.\<close>

fun split :: "char \<Rightarrow> string \<Rightarrow> string list" where
  "split c [] = [[]]"
| "split c (x # xs) =
     (if x = c then [] # split c xs
      else (case split c xs of w # ws \<Rightarrow> (x # w) # ws | [] \<Rightarrow> [[x]]))"

text \<open>\<open>Array.from(new Set(xs))\<close>: the first occurrence of every element, in order.\<close>

fun dedupe :: "'a list \<Rightarrow> 'a list \<Rightarrow> 'a list" where
  "dedupe seen [] = []"
| "dedupe seen (x # xs) = (if x \<in> set seen then dedupe seen xs else x # dedupe (x # seen) xs)"

definition unique :: "'a list \<Rightarrow> 'a list" where
  "unique xs = dedupe [] xs"

section \<open>utils/email.ts\<close>

text \<open>
  \<open>EMAIL_REGEX\<close>: a non-empty local part over the character class, \<open>@\<close>, then two or
  more labels separated by dots; a label is 1 to 63 characters, letters, digits and
  hyphens, with a letter or digit first and last. The local part's class excludes \<open>@\<close>
  and a label's excludes the dot, so the match is decided by cutting the string at its
  first \<open>@\<close> and the rest at every dot.
\<close>

definition isAlnum :: "char \<Rightarrow> bool" where
  "isAlnum c = (isLower c \<or> isUpper c \<or> isDigit c)"

definition isLocalChar :: "char \<Rightarrow> bool" where
  "isLocalChar c =
     (isAlnum c \<or>
      c \<in> set [CHR ''.'', CHR ''!'', CHR ''#'', CHR ''$'', CHR ''%'', CHR ''&'', CHR 0x27,
                 CHR ''*'', CHR ''+'', CHR ''/'', CHR ''='', CHR ''?'', CHR ''^'', CHR ''_'',
                 CHR 0x60, CHR ''{'', CHR ''|'', CHR ''}'', CHR ''~'', CHR ''-''])"

definition isLabel :: "string \<Rightarrow> bool" where
  "isLabel l =
     (l \<noteq> [] \<and> length l \<le> 63 \<and> isAlnum (hd l) \<and> isAlnum (last l) \<and>
      list_all (\<lambda>c. isAlnum c \<or> c = CHR ''-'') l)"

definition EMAIL_REGEX_test :: "string \<Rightarrow> bool" where
  "EMAIL_REGEX_test s =
     (let local = takeWhile (\<lambda>c. c \<noteq> CHR ''@'') s;
          rest = dropWhile (\<lambda>c. c \<noteq> CHR ''@'') s
      in local \<noteq> [] \<and> list_all isLocalChar local \<and> rest \<noteq> [] \<and>
         (let labels = split CHR ''.'' (tl rest)
          in 2 \<le> length labels \<and> list_all isLabel labels))"

fun normalizeEmail :: "raw_value \<Rightarrow> string option" where
  "normalizeEmail (Str v) =
     (let trimmed = trim v in if trimmed = [] then None else Some (toLowerCase trimmed))"
| "normalizeEmail Null = None"
| "normalizeEmail Undefined = None"

definition isValidEmail :: "raw_value \<Rightarrow> bool" where
  "isValidEmail v =
     (case normalizeEmail v of None \<Rightarrow> False | Some normalized \<Rightarrow> EMAIL_REGEX_test normalized)"

record partition =
  valid :: "string list"
  invalid :: "string list"

text \<open>One turn of the loop of \<open>partitionEmails\<close>; \<open>push\<close> appends.\<close>

definition partitionStep :: "partition \<Rightarrow> raw_value \<Rightarrow> partition" where
  "partitionStep acc v =
     (case normalizeEmail v of
        None \<Rightarrow>
          (if truthy v then acc\<lparr>invalid := invalid acc @ [trim (String_of v)]\<rparr> else acc)
      | Some normalized \<Rightarrow>
          (if EMAIL_REGEX_test normalized then acc\<lparr>valid := valid acc @ [normalized]\<rparr>
           else acc\<lparr>invalid := invalid acc @ [normalized]\<rparr>))"

definition partitionEmails :: "raw_value list \<Rightarrow> partition" where
  "partitionEmails inputs = foldl partitionStep \<lparr>valid = [], invalid = []\<rparr> inputs"

section \<open>services/autoUserAudit.ts\<close>

datatype AuditAction = created | reactivated | already_active | error

record AutoUserAuditEntry =
  a_ts :: string
  a_action :: AuditAction
  emailMasked :: string
  a_daoId :: "string option"
  a_memberName :: "string option"
  a_message :: "string option"

text \<open>The argument of \<open>recordAutoUserEvent\<close>.\<close>

record AutoUserEvent =
  e_action :: AuditAction
  e_email :: raw_value
  e_daoId :: raw_value
  e_memberName :: raw_value
  e_message :: raw_value

text \<open>\<open>s.replace(/^[^@]+/, "***")\<close>: the longest prefix free of \<open>@\<close>, when it is not
  empty, is replaced.\<close>

definition replaceLocalPart :: "string \<Rightarrow> string" where
  "replaceLocalPart s =
     (if takeWhile (\<lambda>c. c \<noteq> CHR ''@'') s = [] then s
      else ''***'' @ dropWhile (\<lambda>c. c \<noteq> CHR ''@'') s)"

definition maskEmail :: "raw_value \<Rightarrow> string" where
  "maskEmail e =
     (if \<not> truthy e then ''***@***''
      else (let s = trim (String_of e) in replaceLocalPart s))"

text \<open>\<open>x || null\<close>.\<close>

definition orNull :: "raw_value \<Rightarrow> string option" where
  "orNull x = (if truthy x then Some (String_of x) else None)"

text \<open>\<open>recordAutoUserEvent\<close>; \<open>now\<close> is \<open>new Date().toISOString()\<close>, the store is the
  module's array, newest entry first.\<close>

definition recordAutoUserEvent ::
  "AutoUserEvent \<Rightarrow> string \<Rightarrow> AutoUserAuditEntry list \<Rightarrow> AutoUserAuditEntry list" where
  "recordAutoUserEvent entry now store =
     (let rec = \<lparr>a_ts = now, a_action = e_action entry, emailMasked = maskEmail (e_email entry),
                 a_daoId = orNull (e_daoId entry), a_memberName = orNull (e_memberName entry),
                 a_message = orNull (e_message entry)\<rparr>;
          store1 = rec # store
      in if length store1 > 200 then take 200 store1 else store1)"

definition clearAutoUserEvents :: "AutoUserAuditEntry list \<Rightarrow> AutoUserAuditEntry list" where
  "clearAutoUserEvents store = []"

text \<open>A run of the module: calls of its two mutators, from the empty store it starts
  with. A call of \<open>recordAutoUserEvent\<close> comes with the clock's reading.\<close>

datatype audit_call = Record AutoUserEvent string | Clear

fun audit_call_run :: "AutoUserAuditEntry list \<Rightarrow> audit_call \<Rightarrow> AutoUserAuditEntry list" where
  "audit_call_run store (Record entry now) = recordAutoUserEvent entry now store"
| "audit_call_run store Clear = clearAutoUserEvents store"

definition audit_run :: "audit_call list \<Rightarrow> AutoUserAuditEntry list" where
  "audit_run calls = foldl audit_call_run [] calls"

section \<open>services/txEmail.ts: computeDaoProgress\<close>

text \<open>
  A JavaScript number is an IEEE 754 double. The finite doubles are modelled as the
  rationals they denote, and every arithmetic operation returns \<open>toDouble\<close> of the exact
  result: the nearest double, a tie going to the even significand. Only the normal range
  is modelled (53 significant bits, an unbounded exponent): no overflow, no subnormal
  number, no NaN. The model is the arithmetic of the code as long as every value met is 0
  or of a magnitude from \<open>2^-1022\<close> to below \<open>2^1024\<close>. A number held by a record is a
  double: the rational \<open>x\<close> it denotes has \<open>toDouble x = x\<close>.
\<close>

definition roundHalfEven :: "rat \<Rightarrow> int" where
  "roundHalfEven q =
     (let n = \<lfloor>q\<rfloor>; r = q - of_int n
      in if r < 1 / 2 then n else if 1 / 2 < r then n + 1 else if even n then n else n + 1)"

text \<open>The binary exponent of a positive number: the \<open>e\<close> with \<open>2^e \<le> x < 2^(e+1)\<close>.\<close>

definition exponentOf :: "rat \<Rightarrow> int" where
  "exponentOf x =
     (if 1 \<le> x then bitlen \<lfloor>x\<rfloor> - 1
      else (let k = bitlen \<lfloor>1 / x\<rfloor> - 1 in if x = 2 powi (- k) then - k else - k - 1))"

definition toDouble :: "rat \<Rightarrow> rat" where
  "toDouble x =
     (if x = 0 then 0
      else (let a = \<bar>x\<bar>; ulp = 2 powi (exponentOf a - 52)
            in sgn x * of_int (roundHalfEven (a / ulp)) * ulp))"

record DaoTask =
  isApplicable :: bool
  progress :: "rat option"

record Dao =
  tasks :: "DaoTask list option"

text \<open>\<open>Math.round\<close>: the nearest integer, a tie going up.\<close>

definition Math_round :: "rat \<Rightarrow> int" where
  "Math_round x = \<lfloor>x + 1 / 2\<rfloor>"

definition computeDaoProgress :: "Dao \<Rightarrow> int" where
  "computeDaoProgress dao =
     (let applicable = filter isApplicable (case tasks dao of None \<Rightarrow> [] | Some ts \<Rightarrow> ts)
      in if length applicable = 0 then 0
         else (let sum = foldl (\<lambda>acc t. toDouble (acc + (case progress t of None \<Rightarrow> 0 | Some p \<Rightarrow> p)))
                           0 applicable
               in Math_round (toDouble (sum / of_nat (length applicable)))))"

text \<open>The specification's words: the arithmetic mean of the progress values (a missing one
  counts 0) over the applicable tasks, rounded to the nearest integer; 0 without one. The
  mean is the exact one, of the numbers the progress values denote.\<close>

definition progressOf :: "DaoTask \<Rightarrow> rat" where
  "progressOf t = (case progress t of None \<Rightarrow> 0 | Some p \<Rightarrow> p)"

definition spec_mean :: "rat list \<Rightarrow> rat" where
  "spec_mean xs = sum_list xs / of_nat (length xs)"

definition spec_progress :: "DaoTask list \<Rightarrow> int" where
  "spec_progress ts =
     (let ps = map progressOf (filter isApplicable ts)
      in if ps = [] then 0 else round (spec_mean ps))"

text \<open>A task whose progress is missing or a whole percentage, 0 to 100.\<close>

definition integerPercent :: "DaoTask \<Rightarrow> bool" where
  "integerPercent t =
     (case progress t of None \<Rightarrow> True
      | Some p \<Rightarrow> p = of_int \<lfloor>p\<rfloor> \<and> 0 \<le> p \<and> p \<le> 100)"

section \<open>services/notificationService.ts: the notification store\<close>

datatype NotificationType =
  role_update | task_notification | dao_created | dao_updated | dao_deleted | user_created | system

text \<open>\<open>recipients: "all" | string[]\<close>.\<close>

datatype Recipients = All | Ids "string list"

text \<open>A value of the open \<open>data\<close> payload, and the payload as its list of entries.\<close>

datatype DataValue = DString string | DBool bool | DNumber int

text \<open>
  A \<open>ServerNotification\<close>. Its \<open>readBy\<close> is the set of user ids. In the source every
  notification is built by \<open>add\<close> with a \<open>new Set\<close> of its own, so no two notifications
  share one and the set is a value of the record.
\<close>

record ServerNotification =
  n_id :: string
  n_type :: NotificationType
  n_title :: string
  n_message :: string
  n_data :: "(string \<times> DataValue) list option"
  n_recipients :: Recipients
  readBy :: "string set"
  createdAt :: string

definition MAX_ITEMS :: nat where
  "MAX_ITEMS = 1000"

definition isRecipient :: "string \<Rightarrow> ServerNotification \<Rightarrow> bool" where
  "isRecipient userId n =
     (case n_recipients n of All \<Rightarrow> True | Ids ids \<Rightarrow> userId \<in> set ids)"

text \<open>The argument of \<open>add\<close>: a notification without id, readBy and createdAt.\<close>

record NewNotification =
  nn_type :: NotificationType
  nn_title :: string
  nn_message :: string
  nn_data :: "(string \<times> DataValue) list option"
  nn_recipients :: Recipients

text \<open>
  \<open>add\<close>, its synchronous part: \<open>broadcastAll\<close> is the \<open>EMAIL_BROADCAST_ALL\<close> flag,
  \<open>newId\<close> the generated id and \<open>now\<close> the clock's ISO string. Persistence and email
  mirroring are started afterwards and do not change the list here.
\<close>

definition add ::
  "bool \<Rightarrow> string \<Rightarrow> string \<Rightarrow> NewNotification \<Rightarrow> ServerNotification list
     \<Rightarrow> ServerNotification \<times> ServerNotification list" where
  "add broadcastAll newId now n notifications =
     (let item = \<lparr>n_id = newId, n_type = nn_type n, n_title = nn_title n,
                  n_message = nn_message n, n_data = nn_data n,
                  n_recipients = (if broadcastAll then All else nn_recipients n),
                  readBy = {}, createdAt = now\<rparr>;
          notifications1 = item # notifications
      in (item, if length notifications1 > MAX_ITEMS then take MAX_ITEMS notifications1
                else notifications1))"

text \<open>\<open>n.readBy.add(userId)\<close> on the object that \<open>find\<close> returned: the first element of
  the list with the id.\<close>

fun addReader :: "string \<Rightarrow> string \<Rightarrow> ServerNotification list \<Rightarrow> ServerNotification list" where
  "addReader userId notifId [] = []"
| "addReader userId notifId (n # ns) =
     (if n_id n = notifId then n\<lparr>readBy := insert userId (readBy n)\<rparr> # ns
      else n # addReader userId notifId ns)"

definition markRead ::
  "string \<Rightarrow> string \<Rightarrow> ServerNotification list \<Rightarrow> bool \<times> ServerNotification list" where
  "markRead userId notifId notifications =
     (case find (\<lambda>n. n_id n = notifId) notifications of
        None \<Rightarrow> (False, notifications)
      | Some n \<Rightarrow>
          (if \<not> isRecipient userId n then (False, notifications)
           else (True, addReader userId notifId notifications)))"

text \<open>The loop of \<open>markAllRead\<close>, with its counter.\<close>

fun markAllRead_loop ::
  "string \<Rightarrow> ServerNotification list \<Rightarrow> nat \<Rightarrow> nat \<times> ServerNotification list" where
  "markAllRead_loop userId [] count = (count, [])"
| "markAllRead_loop userId (n # ns) count =
     (if isRecipient userId n \<and> userId \<notin> readBy n
      then (let (count1, ns1) = markAllRead_loop userId ns (count + 1)
            in (count1, n\<lparr>readBy := insert userId (readBy n)\<rparr> # ns1))
      else (let (count1, ns1) = markAllRead_loop userId ns count
            in (count1, n # ns1)))"

definition markAllRead :: "string \<Rightarrow> ServerNotification list \<Rightarrow> nat \<times> ServerNotification list" where
  "markAllRead userId notifications = markAllRead_loop userId notifications 0"

definition clearAll :: "ServerNotification list \<Rightarrow> ServerNotification list" where
  "clearAll notifications = []"

subsection \<open>The cooldown of email error notifications\<close>

text \<open>\<open>EMAIL_ERROR_NOTIFY_INTERVAL_MS\<close>; the argument is the number the environment variable
  of the same name holds, if it is set and not empty.\<close>

definition EMAIL_ERROR_NOTIFY_INTERVAL_MS :: "int option \<Rightarrow> int" where
  "EMAIL_ERROR_NOTIFY_INTERVAL_MS configured =
     max (5 * 60 * 1000) (case configured of None \<Rightarrow> 10 * 60 * 1000 | Some n \<Rightarrow> n)"

record Cooldown =
  lastEmailErrorNotificationAt :: int
  lastEmailErrorNotificationCode :: "string option"

definition initialCooldown :: Cooldown where
  "initialCooldown = \<lparr>lastEmailErrorNotificationAt = 0, lastEmailErrorNotificationCode = None\<rparr>"

text \<open>\<open>shouldNotifyEmailError\<close>; \<open>interval\<close> is the constant above and \<open>now\<close> is
  \<open>Date.now()\<close>.\<close>

definition shouldNotifyEmailError :: "int \<Rightarrow> int \<Rightarrow> string \<Rightarrow> Cooldown \<Rightarrow> bool \<times> Cooldown" where
  "shouldNotifyEmailError interval now code c =
     (if lastEmailErrorNotificationCode c = Some code \<and>
         now - lastEmailErrorNotificationAt c < interval
      then (False, c)
      else (True, c\<lparr>lastEmailErrorNotificationAt := now,
                    lastEmailErrorNotificationCode := Some code\<rparr>))"

section \<open>services/txEmail.ts: the delivery engine\<close>

record EmailBatchFailure =
  bf_code :: string
  bf_message :: string
  bf_recipients :: "string list"

record EmailDeliverySummary =
  subject :: string
  attempted :: nat
  sent :: nat
  failed :: nat
  errors :: "EmailBatchFailure list"

datatype MailType =
  USER_CREATED | USER_DELETED_USER | USER_DELETED_ADMIN | DAO_CREATED | DAO_UPDATED
  | TASK_CREATED | TASK_UPDATED | TASK_DELETED | TASK_ASSIGNED | TASK_REASSIGNED
  | TASK_COMMENTED | AUTH_PASSWORD_RESET | AUTH_PASSWORD_CHANGED | SYSTEM_TEST

text \<open>\<open>EmailSendError\<close>: a raised error is a value of this record.\<close>

record EmailSendError =
  es_message :: string
  es_code :: "string option"
  permanent :: bool
  summary :: "EmailDeliverySummary option"

text \<open>A job of the queue. Its \<open>resolve\<close> and \<open>reject\<close> settle the promise of the call that
  enqueued it: the drainer below returns the settlement of every job it ran, in order.\<close>

record EmailJob =
  job_id :: string
  job_recipients :: "string list"
  job_subject :: string
  job_body :: string
  job_type :: "MailType option"

record SerializedEmailJob =
  sj_id :: string
  sj_recipients :: "string list"
  sj_subject :: string
  sj_body :: string
  sj_type :: "MailType option"
  enqueuedAt :: string

text \<open>An entry of the diagnostic log \<open>emailEvents\<close> (its time stamp is left out).\<close>

record EmailEvent =
  ev_subject :: string
  toCount :: nat
  success :: bool
  ev_error :: "string option"

text \<open>What \<open>transport.sendMail\<close> rejects with: \<open>responseCode\<close>, \<open>code\<close>, \<open>message\<close> and the
  error's \<open>name\<close> (\<open>String(error)\<close> is the name when the message is empty).\<close>

record SmtpError =
  responseCode :: "nat option"
  err_code :: "string option"
  err_message :: string
  err_name :: string

text \<open>A candidate transport of \<open>getTransport\<close> (port and TLS flag, which only reach
  \<open>createTransport\<close>, are left out) and what \<open>getTransport\<close> returns.\<close>

record Candidate =
  c_name :: string
  c_host :: "string option"
  c_user :: "string option"
  c_pass :: "string option"

record TransportMeta =
  t_host :: string
  t_name :: string

text \<open>
  The process environment and the outside world of the engine:
  \<^item> the configuration numbers as \<open>Number(process.env.X || default)\<close> gives them;
  \<^item> \<open>candidates\<close>: the primary transport and the fallbacks, in the configured order;
  \<^item> \<open>verify host\<close>: the connectivity probe, \<open>None\<close> when it resolves, the error's
    message when it rejects;
  \<^item> \<open>sendMail k host bcc\<close>: the \<open>k\<close>-th invocation of \<open>sendMail\<close> (counted from 0 over
    the process), \<open>None\<close> when it resolves;
  \<^item> \<open>randomUUID k\<close>: the \<open>k\<close>-th generated id; \<open>clock\<close>: the ISO time stamp of a job
    enqueued as the \<open>k\<close>-th.
\<close>

record Env =
  dryRun :: bool
  SMTP_DISABLE :: bool
  SMTP_BATCH_SIZE :: nat
  SMTP_MAX_RETRY :: nat
  SMTP_MAX_CONCURRENT :: nat
  candidates :: "Candidate list"
  verify :: "string \<Rightarrow> string option"
  sendMail :: "nat \<Rightarrow> string \<Rightarrow> string list \<Rightarrow> SmtpError option"
  randomUUID :: "nat \<Rightarrow> string"
  clock :: "nat \<Rightarrow> string"

definition BATCH_SIZE :: "Env \<Rightarrow> nat" where
  "BATCH_SIZE env = max 1 (SMTP_BATCH_SIZE env)"

definition MAX_RETRY :: "Env \<Rightarrow> nat" where
  "MAX_RETRY env = max 1 (SMTP_MAX_RETRY env)"

definition MAX_CONCURRENT :: "Env \<Rightarrow> nat" where
  "MAX_CONCURRENT env = max 1 (SMTP_MAX_CONCURRENT env)"

text \<open>
  The module's state: the queue, its persisted mirror, the drainer's flag, the counters
  \<open>deliveryStats\<close>, the diagnostic log, the last transport error; and of the world, the
  invocations of \<open>sendMail\<close> so far (host and blind-copy list, oldest first) and the
  number of ids generated.
\<close>

record Engine =
  emailQueue :: "EmailJob list"
  persistedQueue :: "SerializedEmailJob list"
  isProcessingQueue :: bool
  totalSent :: nat
  totalFailed :: nat
  emailEvents :: "EmailEvent list"
  lastTransportError :: "string option"
  sendMailCalls :: "(string \<times> string list) list"
  uuidCount :: nat

text \<open>\<open>toArray\<close>: the argument \<open>to\<close> of \<open>sendEmail\<close> is one value or an array.\<close>

datatype To = One raw_value | Many "raw_value list"

fun toArray :: "To \<Rightarrow> raw_value list" where
  "toArray (One x) = (if \<not> truthy x then [] else [x])"
| "toArray (Many xs) = xs"

text \<open>\<open>String(n)\<close> of a natural number.\<close>

fun String_of_nat :: "nat \<Rightarrow> string" where
  "String_of_nat n =
     (if n < 10 then [char_of (48 + n)]
      else String_of_nat (n div 10) @ [char_of (48 + n mod 10)])"

text \<open>\<open>xs.join(sep)\<close>.\<close>

fun join :: "string \<Rightarrow> string list \<Rightarrow> string" where
  "join sep [] = []"
| "join sep [x] = x"
| "join sep (x # y # ys) = x @ sep @ join sep (y # ys)"

definition temporaryCodes :: "string list" where
  "temporaryCodes =
     [''ETIMEDOUT'', ''ESOCKETTIMEDOUT'', ''ECONNRESET'', ''ECONNREFUSED'', ''ECONNABORTED'',
      ''EPIPE'', ''EHOSTUNREACH'', ''ENETUNREACH'', ''EAI_AGAIN'', ''ETIMEOUT'', ''ETEMPFAIL'',
      ''ECONNECTION'']"

definition isTemporarySmtpError :: "string \<Rightarrow> string \<Rightarrow> bool" where
  "isTemporarySmtpError code message =
     (let normalizedCode = toUpperCase (trim code)
      in if normalizedCode = []
         then list_ex (str_includes_ci message) [''timeout'', ''temporar'', ''retry'']
         else if normalizedCode \<in> set temporaryCodes then True
         else if length normalizedCode = 3 \<and> hd normalizedCode = CHR ''4'' \<and>
                 list_all isDigit normalizedCode then True
         else if normalizedCode = ''421'' then True
         else list_ex (str_includes_ci message)
                [''temporary'', ''timeout'', ''try again'', ''later'', ''rate limit''])"

text \<open>A configuration field that is set and not empty.\<close>

definition present :: "string option \<Rightarrow> bool" where
  "present x = (case x of None \<Rightarrow> False | Some v \<Rightarrow> v \<noteq> [])"

text \<open>
  The loop of \<open>getTransport\<close> over the candidates: the first verified transport, or
  else the first candidate with a complete configuration (best effort), or else null.
  The second component is the new \<open>lastTransportError\<close>.
\<close>

fun getTransport_loop ::
  "Env \<Rightarrow> string list \<Rightarrow> Candidate list \<Rightarrow> TransportMeta option \<Rightarrow> string list
     \<Rightarrow> TransportMeta option \<times> string option" where
  "getTransport_loop env excludeHosts [] firstTransport errs =
     (firstTransport, Some (join '' | '' errs))"
| "getTransport_loop env excludeHosts (cfg # rest) firstTransport errs =
     (let complete = (present (c_host cfg) \<and> present (c_user cfg) \<and> present (c_pass cfg));
          host = (case c_host cfg of None \<Rightarrow> [] | Some h \<Rightarrow> h);
          firstTransport1 =
            (if firstTransport = None \<and> complete
             then Some \<lparr>t_host = host, t_name = c_name cfg\<rparr> else firstTransport)
      in if \<not> complete
         then getTransport_loop env excludeHosts rest firstTransport1
                (errs @ [c_name cfg @ '': incomplete''])
         else if host \<in> set excludeHosts
         then getTransport_loop env excludeHosts rest firstTransport1
                (errs @ [c_name cfg @ '': excluded-host:'' @ c_name cfg])
         else (case verify env host of
                 None \<Rightarrow> (Some \<lparr>t_host = host, t_name = c_name cfg\<rparr>, None)
               | Some msg \<Rightarrow>
                   getTransport_loop env excludeHosts rest firstTransport1
                     (errs @ [c_name cfg @ '': '' @ msg])))"

definition getTransport :: "Env \<Rightarrow> string list \<Rightarrow> Engine \<Rightarrow> TransportMeta option \<times> Engine" where
  "getTransport env excludeHosts s =
     (if SMTP_DISABLE env then (None, s)
      else (let (found, lastError) = getTransport_loop env excludeHosts (candidates env) None []
            in (found, s\<lparr>lastTransportError := lastError\<rparr>)))"

text \<open>\<open>emailEvents.unshift(ev)\<close>, the log cut to its 50 newest entries.\<close>

definition pushEvent :: "EmailEvent \<Rightarrow> Engine \<Rightarrow> Engine" where
  "pushEvent ev s =
     (let evs = ev # emailEvents s
      in s\<lparr>emailEvents := (if length evs > 50 then take 50 evs else evs)\<rparr>)"

text \<open>\<open>String(err?.responseCode || err?.code || "unknown")\<close> and
  \<open>String(error?.message || error)\<close> of a rejected \<open>sendMail\<close>.\<close>

definition errorCode :: "SmtpError \<Rightarrow> string" where
  "errorCode err =
     (case responseCode err of
        Some n \<Rightarrow> if n \<noteq> 0 then String_of_nat n
                  else (if present (err_code err) then the (err_code err) else ''unknown'')
      | None \<Rightarrow> (if present (err_code err) then the (err_code err) else ''unknown''))"

definition errorMessage :: "SmtpError \<Rightarrow> string" where
  "errorMessage err = (if err_message err \<noteq> [] then err_message err else err_name err)"

text \<open>The local variables of the batch loop of \<open>deliverEmailJob\<close>.\<close>

record Locals =
  index :: nat
  currentTransportMeta :: TransportMeta
  excludedHosts :: "string list"
  l_summary :: EmailDeliverySummary
  hasErrors :: bool
  hasPermanentFailure :: bool

text \<open>
  One turn of the batch loop \<open>for (let index = 0; index < recipients.length; )\<close>, entered
  with \<open>index < recipients.length\<close>: the batch is sent; on success the index advances;
  on a temporary error the host is excluded, another transport is looked for and the
  index stays (the same batch is sent again at the next turn); on a permanent error the
  batch is skipped. The sleeps are left out.
\<close>

definition batchTurn :: "Env \<Rightarrow> string list \<Rightarrow> string \<Rightarrow> Locals \<Rightarrow> Engine \<Rightarrow> Locals \<times> Engine" where
  "batchTurn env recipients subj l s =
     (let effectiveBatchSize = min (BATCH_SIZE env) (length recipients - index l);
          batch = take effectiveBatchSize (drop (index l) recipients);
          host = t_host (currentTransportMeta l);
          s0 = s\<lparr>sendMailCalls := sendMailCalls s @ [(host, batch)]\<rparr>
      in case sendMail env (length (sendMailCalls s)) host batch of
           None \<Rightarrow>
             (l\<lparr>l_summary := (l_summary l)\<lparr>sent := sent (l_summary l) + length batch\<rparr>,
                index := index l + effectiveBatchSize\<rparr>,
              pushEvent \<lparr>ev_subject = subj, toCount = length batch, success = True,
                         ev_error = None\<rparr> s0)
         | Some err \<Rightarrow>
             (let code = errorCode err;
                  message = errorMessage err;
                  temporary = isTemporarySmtpError code message;
                  l1 = l\<lparr>hasErrors := True,
                         hasPermanentFailure := (hasPermanentFailure l \<or> \<not> temporary),
                         l_summary := (l_summary l)
                           \<lparr>failed := failed (l_summary l) + length batch,
                            errors := errors (l_summary l) @
                              [\<lparr>bf_code = code, bf_message = message, bf_recipients = batch\<rparr>]\<rparr>\<rparr>;
                  s1 = pushEvent \<lparr>ev_subject = subj, toCount = length batch, success = False,
                                  ev_error = Some (code @ '': '' @ message)\<rparr>
                         (s0\<lparr>lastTransportError := Some message\<rparr>)
              in if temporary
                 then (let l2 = l1\<lparr>excludedHosts := excludedHosts l1 @ [host]\<rparr>;
                           found = getTransport env (excludedHosts l2) s1
                       in case fst found of
                            Some next \<Rightarrow>
                              (if t_host next \<noteq> host
                               then (l2\<lparr>currentTransportMeta := next\<rparr>, snd found)
                               else (l2, snd found))
                          | None \<Rightarrow> (l2, snd found))
                 else (l1\<lparr>index := index l1 + effectiveBatchSize\<rparr>, s1)))"

text \<open>
  The loop. A batch that keeps failing with a temporary error is sent again without
  end, so the loop runs on fuel, one unit per turn; \<open>None\<close> is the loop still running
  when the fuel is spent.
\<close>

fun batchLoop ::
  "nat \<Rightarrow> Env \<Rightarrow> string list \<Rightarrow> string \<Rightarrow> Locals \<Rightarrow> Engine \<Rightarrow> (Locals \<times> Engine) option" where
  "batchLoop 0 env recipients subj l s =
     (if \<not> index l < length recipients then Some (l, s) else None)"
| "batchLoop (Suc fuel) env recipients subj l s =
     (if \<not> index l < length recipients then Some (l, s)
      else batchLoop fuel env recipients subj
             (fst (batchTurn env recipients subj l s)) (snd (batchTurn env recipients subj l s)))"

text \<open>\<open>x || fallback\<close> on a string that may be null.\<close>

definition orElse :: "string option \<Rightarrow> string \<Rightarrow> string" where
  "orElse x fallback = (if present x then the x else fallback)"

definition partialFailureMessage :: string where
  "partialFailureMessage = ''Echec partiel de l'' @ [CHR 0x27] @ ''envoi SMTP''"

text \<open>\<open>deliverEmailJob\<close>: \<open>Inr\<close> the summary it returns, \<open>Inl\<close> the error it throws.\<close>

definition deliverEmailJob ::
  "nat \<Rightarrow> Env \<Rightarrow> string list \<Rightarrow> string \<Rightarrow> string \<Rightarrow> MailType option \<Rightarrow> Engine
     \<Rightarrow> ((EmailSendError + EmailDeliverySummary) \<times> Engine) option" where
  "deliverEmailJob fuel env recipients subj body type s =
     (let summary0 = \<lparr>subject = subj, attempted = length recipients, sent = 0, failed = 0,
                      errors = []\<rparr>
      in if dryRun env
         then (let summary1 = summary0\<lparr>sent := attempted summary0\<rparr>
               in Some (Inr summary1,
                        pushEvent \<lparr>ev_subject = subj, toCount = length recipients,
                                   success = True, ev_error = None\<rparr>
                          (s\<lparr>totalSent := totalSent s + sent summary1\<rparr>)))
         else
           (let found = getTransport env [] s;
                s1 = snd found
            in case fst found of
                 None \<Rightarrow>
                   (let message = orElse (lastTransportError s1) ''SMTP transport unavailable'';
                        summary1 = summary0
                          \<lparr>failed := attempted summary0,
                           errors := errors summary0 @
                             [\<lparr>bf_code = ''transport_unavailable'', bf_message = message,
                               bf_recipients = recipients\<rparr>]\<rparr>
                    in Some (Inl \<lparr>es_message = message, es_code = None, permanent = True,
                                  summary = Some summary1\<rparr>,
                             pushEvent \<lparr>ev_subject = subj, toCount = length recipients,
                                        success = False, ev_error = Some message\<rparr>
                               (s1\<lparr>totalFailed := totalFailed s1 + failed summary1\<rparr>)))
               | Some meta \<Rightarrow>
                   (case batchLoop fuel env recipients subj
                           \<lparr>index = 0, currentTransportMeta = meta, excludedHosts = [],
                            l_summary = summary0, hasErrors = False,
                            hasPermanentFailure = False\<rparr> s1 of
                      None \<Rightarrow> None
                    | Some (l, s2) \<Rightarrow>
                        (let summary1 = l_summary l;
                             s3 = s2\<lparr>totalSent := totalSent s2 + sent summary1,
                                     totalFailed := totalFailed s2 + failed summary1\<rparr>
                         in if hasErrors l \<and> length (errors summary1) > 0
                            then (let primary = hd (errors summary1)
                                  in Some (Inl \<lparr>es_message =
                                                  (if bf_message primary \<noteq> [] then bf_message primary
                                                   else partialFailureMessage),
                                                es_code = Some (bf_code primary),
                                                permanent = hasPermanentFailure l,
                                                summary = Some summary1\<rparr>, s3))
                            else Some (Inr summary1, s3\<lparr>lastTransportError := None\<rparr>)))))"

text \<open>\<open>deliverWithRetry\<close>: the whole job again, up to \<open>MAX_RETRY\<close> attempts, unless the
  error is permanent.\<close>

function deliverWithRetry ::
  "nat \<Rightarrow> Env \<Rightarrow> EmailJob \<Rightarrow> nat \<Rightarrow> Engine
     \<Rightarrow> ((EmailSendError + EmailDeliverySummary) \<times> Engine) option" where
  "deliverWithRetry fuel env job attempt s =
     (case deliverEmailJob fuel env (job_recipients job) (job_subject job) (job_body job)
             (job_type job) s of
        None \<Rightarrow> None
      | Some (Inr summary1, s1) \<Rightarrow> Some (Inr summary1, s1)
      | Some (Inl err, s1) \<Rightarrow>
          (if attempt < MAX_RETRY env \<and> \<not> permanent err
           then deliverWithRetry fuel env job (attempt + 1) s1
           else Some (Inl err, s1)))"
  by pat_completeness auto
termination
  by (relation "measure (\<lambda>(fuel, env, job, attempt, s). MAX_RETRY env - attempt)") auto

declare deliverWithRetry.simps [simp del]

definition addPersistedJob :: "SerializedEmailJob \<Rightarrow> Engine \<Rightarrow> Engine" where
  "addPersistedJob job s = s\<lparr>persistedQueue := persistedQueue s @ [job]\<rparr>"

text \<open>\<open>removePersistedJob\<close>: the first persisted job with the id is spliced out.\<close>

fun removeFirstId :: "string \<Rightarrow> SerializedEmailJob list \<Rightarrow> SerializedEmailJob list" where
  "removeFirstId jid [] = []"
| "removeFirstId jid (j # js) = (if sj_id j = jid then js else j # removeFirstId jid js)"

definition removePersistedJob :: "string \<Rightarrow> Engine \<Rightarrow> Engine" where
  "removePersistedJob jid s = s\<lparr>persistedQueue := removeFirstId jid (persistedQueue s)\<rparr>"

text \<open>
  The jobs of one round of \<open>processQueue\<close>: each is delivered, its promise settled with
  the summary or the error, and its persisted copy removed. The source starts the jobs of
  a round together; here they run one after the other, in queue order.
\<close>

fun runJobs ::
  "nat \<Rightarrow> Env \<Rightarrow> EmailJob list \<Rightarrow> Engine
     \<Rightarrow> ((EmailSendError + EmailDeliverySummary) list \<times> Engine) option" where
  "runJobs fuel env [] s = Some ([], s)"
| "runJobs fuel env (job # jobs) s =
     (case deliverWithRetry fuel env job 1 s of
        None \<Rightarrow> None
      | Some (settled, s1) \<Rightarrow>
          (case runJobs fuel env jobs (removePersistedJob (job_id job) s1) of
             None \<Rightarrow> None
           | Some (rest, s2) \<Rightarrow> Some (settled # rest, s2)))"

text \<open>
  The rounds \<open>while (emailQueue.length > 0)\<close>: \<open>queue\<close> is the content of \<open>emailQueue\<close>,
  of which every round splices the first \<open>MAX_CONCURRENT\<close> jobs. No call enqueues while
  the rounds run (one call of \<open>sendEmail\<close> is modelled at a time).
\<close>

function processRounds ::
  "nat \<Rightarrow> Env \<Rightarrow> EmailJob list \<Rightarrow> Engine
     \<Rightarrow> ((EmailSendError + EmailDeliverySummary) list \<times> Engine) option" where
  "processRounds fuel env queue s =
     (if queue = [] then Some ([], s)
      else (case runJobs fuel env (take (MAX_CONCURRENT env) queue)
                   (s\<lparr>emailQueue := drop (MAX_CONCURRENT env) queue\<rparr>) of
              None \<Rightarrow> None
            | Some (settled, s1) \<Rightarrow>
                (case processRounds fuel env (drop (MAX_CONCURRENT env) queue) s1 of
                   None \<Rightarrow> None
                 | Some (rest, s2) \<Rightarrow> Some (settled @ rest, s2))))"
  by pat_completeness auto
termination
  by (relation "measure (\<lambda>(fuel, env, queue, s). length queue)")
     (auto simp: MAX_CONCURRENT_def)

declare processRounds.simps [simp del]

text \<open>\<open>processQueue\<close>: a no-op while a drainer runs; the settlements of the jobs it ran,
  in queue order.\<close>

definition processQueue ::
  "nat \<Rightarrow> Env \<Rightarrow> Engine \<Rightarrow> ((EmailSendError + EmailDeliverySummary) list \<times> Engine) option" where
  "processQueue fuel env s =
     (if isProcessingQueue s then Some ([], s)
      else (case processRounds fuel env (emailQueue s) (s\<lparr>isProcessingQueue := True\<rparr>) of
              None \<Rightarrow> None
            | Some (settled, s1) \<Rightarrow> Some (settled, s1\<lparr>isProcessingQueue := False\<rparr>)))"

text \<open>The synchronous part of \<open>enqueueEmailJob\<close>, before \<open>processQueue\<close> is started: the
  job is added to the persisted queue and pushed on the queue.\<close>

definition enqueueJob ::
  "Env \<Rightarrow> string list \<Rightarrow> string \<Rightarrow> string \<Rightarrow> MailType option \<Rightarrow> Engine \<Rightarrow> Engine" where
  "enqueueJob env recipients subj body type s =
     (let jobId = randomUUID env (uuidCount s);
          serialized = \<lparr>sj_id = jobId, sj_recipients = recipients, sj_subject = subj,
                        sj_body = body, sj_type = type, enqueuedAt = clock env (uuidCount s)\<rparr>;
          s1 = addPersistedJob serialized (s\<lparr>uuidCount := uuidCount s + 1\<rparr>)
      in s1\<lparr>emailQueue := emailQueue s1 @
              [\<lparr>job_id = jobId, job_recipients = recipients, job_subject = subj,
                job_body = body, job_type = type\<rparr>]\<rparr>)"

text \<open>
  \<open>enqueueEmailJob\<close>: the settlement of the promise it returns. The job is the last of
  the queue, so its settlement is the last one of the drainer. When a drainer is already
  running the promise is not settled by this call (\<open>None\<close>).
\<close>

definition enqueueEmailJob ::
  "nat \<Rightarrow> Env \<Rightarrow> string list \<Rightarrow> string \<Rightarrow> string \<Rightarrow> MailType option \<Rightarrow> Engine
     \<Rightarrow> ((EmailSendError + EmailDeliverySummary) \<times> Engine) option" where
  "enqueueEmailJob fuel env recipients subj body type s =
     (case processQueue fuel env (enqueueJob env recipients subj body type s) of
        None \<Rightarrow> None
      | Some (settled, s1) \<Rightarrow> (if settled = [] then None else Some (last settled, s1)))"

text \<open>The recipients \<open>sendEmail\<close> keeps: the valid addresses, each once.\<close>

definition validRecipients :: "To \<Rightarrow> string list" where
  "validRecipients to = unique (valid (partitionEmails (toArray to)))"

text \<open>\<open>(subject && subject.trim()) || "Gestion des DAOs 2SND"\<close>.\<close>

definition smtpSubjectOf :: "string \<Rightarrow> string" where
  "smtpSubjectOf subj = (if trim subj \<noteq> [] then trim subj else ''Gestion des DAOs 2SND'')"

text \<open>\<open>sendEmail\<close>: \<open>Inr ()\<close> when it returns, \<open>Inl\<close> the error it throws.\<close>

definition sendEmail ::
  "nat \<Rightarrow> Env \<Rightarrow> To \<Rightarrow> string \<Rightarrow> string \<Rightarrow> MailType option \<Rightarrow> Engine
     \<Rightarrow> ((EmailSendError + unit) \<times> Engine) option" where
  "sendEmail fuel env to subj body type s =
     (let recipients = validRecipients to
      in if length recipients = 0 then Some (Inr (), s)
         else
           (let smtpSubject = smtpSubjectOf subj;
                normalizedBody = body
            in case enqueueEmailJob fuel env recipients smtpSubject normalizedBody type s of
                 None \<Rightarrow> None
               | Some (Inr summary1, s1) \<Rightarrow>
                   (if failed summary1 = 0 then Some (Inr (), s1)
                    else if sent summary1 = 0
                    then (case errors summary1 of
                            [] \<Rightarrow> Some (Inl \<lparr>es_message = ''SMTP send failed'', es_code = None,
                                             permanent = False, summary = Some summary1\<rparr>, s1)
                          | firstError # _ \<Rightarrow>
                              Some (Inl \<lparr>es_message =
                                           (if bf_message firstError \<noteq> [] then bf_message firstError
                                            else ''SMTP send failed''),
                                         es_code = Some (bf_code firstError),
                                         permanent = (bf_code firstError = ''transport_unavailable''),
                                         summary = Some summary1\<rparr>, s1))
                    else Some (Inr (), s1))
               | Some (Inl err, s1) \<Rightarrow>
                   (if summary err = None
                    then Some (Inl (err\<lparr>summary :=
                                 Some \<lparr>subject = smtpSubject, attempted = length recipients,
                                       sent = 0, failed = length recipients, errors = []\<rparr>\<rparr>), s1)
                    else Some (Inl err, s1))))"

section \<open>services/notificationService.ts: the failure branch of mirrorEmail\<close>

text \<open>\<open>/\b504\b/.test(message)\<close>: the word between two word boundaries.\<close>

definition isWordChar :: "char \<Rightarrow> bool" where
  "isWordChar c = (isAlnum c \<or> c = CHR ''_'')"

fun wordAt :: "string \<Rightarrow> bool \<Rightarrow> string \<Rightarrow> bool" where
  "wordAt w prevIsWord [] = False"
| "wordAt w prevIsWord (c # cs) =
     ((\<not> prevIsWord \<and> take (length w) (c # cs) = w \<and>
       (case drop (length w) (c # cs) of [] \<Rightarrow> True | d # _ \<Rightarrow> \<not> isWordChar d)) \<or>
      wordAt w (isWordChar c) cs)"

text \<open>The service's state: the notification list and the cooldown variables.\<close>

record Service =
  notifications :: "ServerNotification list"
  cooldown :: Cooldown

text \<open>The three user-safe messages (written here without their accents).\<close>

definition safeMsg :: "bool \<Rightarrow> bool \<Rightarrow> string" where
  "safeMsg isQuota is504 =
     (if isQuota
      then ''Envoi d'' @ [CHR 0x27] @
           ''e-mails temporairement bloque (quota atteint). Reessayez plus tard.''
      else if is504
      then ''Erreur d'' @ [CHR 0x27] @ ''envoi d'' @ [CHR 0x27] @
           ''email (504 Gateway Timeout). Reessayer plus tard.''
      else ''Erreur d'' @ [CHR 0x27] @ ''envoi d'' @ [CHR 0x27] @
           ''email. Reessayer plus tard.'')"

text \<open>
  The \<open>catch\<close> branch of \<open>mirrorEmail\<close>, entered with the error \<open>sendEmail\<close> threw after
  the retries: unless the cooldown says no, one system notification is added, flagged
  \<open>skipEmailMirror\<close>. \<open>interval\<close> is \<open>EMAIL_ERROR_NOTIFY_INTERVAL_MS\<close>, \<open>nowMs\<close> is
  \<open>Date.now()\<close>; \<open>broadcastAll\<close>, \<open>newId\<close> and \<open>nowIso\<close> are those of \<open>add\<close>. The first
  component is the notification added, if one is.
\<close>

definition mirrorEmail_catch ::
  "int \<Rightarrow> bool \<Rightarrow> int \<Rightarrow> string \<Rightarrow> string \<Rightarrow> EmailSendError \<Rightarrow> Service
     \<Rightarrow> ServerNotification option \<times> Service" where
  "mirrorEmail_catch interval broadcastAll nowMs newId nowIso err sv =
     (let code = orElse (es_code err) ''unknown'';
          message = es_message err;
          is504 = (code = ''504'' \<or> wordAt ''504'' False message);
          isQuota = (code = ''554'' \<or>
                     str_includes_ci message ''limit on the number of allowed outgoing messages'');
          notifyCode = code;
          (notify, cooldown1) = shouldNotifyEmailError interval nowMs notifyCode (cooldown sv)
      in if \<not> notify then (None, sv\<lparr>cooldown := cooldown1\<rparr>)
         else (let (item, notifications1) =
                     add broadcastAll newId nowIso
                       \<lparr>nn_type = system,
                        nn_title = ''Erreur d'' @ [CHR 0x27] @ ''envoi d'' @ [CHR 0x27] @ ''email'',
                        nn_message = safeMsg isQuota is504,
                        nn_data = Some ([(''skipEmailMirror'', DBool True),
                                         (''emailError'', DBool True),
                                         (''code'', DString notifyCode)] @
                                        (case summary err of
                                           None \<Rightarrow> []
                                         | Some sm \<Rightarrow>
                                             [(''attempted'', DNumber (int (attempted sm))),
                                              (''failed'', DNumber (int (failed sm)))])),
                        nn_recipients = All\<rparr>
                       (notifications sv)
               in (Some item, \<lparr>notifications = notifications1, cooldown = cooldown1\<rparr>)))"

text \<open>A mirroring failure: the error, the clock's two readings and the id \<open>add\<close> would
  generate; and a sequence of them run through the branch, with what each one added.\<close>

record MirrorFailure =
  f_error :: EmailSendError
  f_nowMs :: int
  f_newId :: string
  f_nowIso :: string

fun mirrorFailures ::
  "int \<Rightarrow> bool \<Rightarrow> MirrorFailure list \<Rightarrow> Service \<Rightarrow> ServerNotification option list \<times> Service" where
  "mirrorFailures interval broadcastAll [] sv = ([], sv)"
| "mirrorFailures interval broadcastAll (f # fs) sv =
     (let (added, sv1) =
            mirrorEmail_catch interval broadcastAll (f_nowMs f) (f_newId f) (f_nowIso f)
              (f_error f) sv;
          (rest, sv2) = mirrorFailures interval broadcastAll fs sv1
      in (added # rest, sv2))"

section \<open>Predicates of the verification\<close>





text \<open>Which failures of a sequence added a system notification.\<close>

definition emitted :: "ServerNotification option list \<Rightarrow> bool list" where
  "emitted outs = map (\<lambda>added. added \<noteq> None) outs"

section \<open>Example data\<close>

definition example_broadcast :: ServerNotification where
  "example_broadcast =
     \<lparr>n_id = ''n1'', n_type = dao_created, n_title = ''Nouveau DAO'', n_message = ''DAO-2025-001'',
      n_data = None, n_recipients = All, readBy = {}, createdAt = ''2025-01-01T00:00:00.000Z''\<rparr>"

definition example_targeted :: ServerNotification where
  "example_targeted =
     \<lparr>n_id = ''n2'', n_type = task_notification, n_title = ''Tache'', n_message = ''Progression'',
      n_data = None, n_recipients = Ids [''u2''], readBy = {}, createdAt = ''2025-01-02T00:00:00.000Z''\<rparr>"

definition example_audit_calls :: "audit_call list" where
  "example_audit_calls =
     [Record \<lparr>e_action = created, e_email = Str ''test@example.com'', e_daoId = Str ''d1'',
              e_memberName = Str ''John'', e_message = Undefined\<rparr> ''2025-01-01T00:00:00.000Z'',
      Record \<lparr>e_action = error, e_email = Null, e_daoId = Undefined,
              e_memberName = Undefined, e_message = Str ''Failed''\<rparr> ''2025-01-01T00:00:01.000Z'',
      Record \<lparr>e_action = reactivated, e_email = Str ''  no-at-sign '', e_daoId = Undefined,
              e_memberName = Undefined, e_message = Undefined\<rparr> ''2025-01-01T00:00:02.000Z'']"


definition example_dao :: Dao where
  "example_dao =
     \<lparr>tasks = Some [\<lparr>isApplicable = True, progress = Some 10\<rparr>,
                    \<lparr>isApplicable = True, progress = Some 30\<rparr>,
                    \<lparr>isApplicable = False, progress = Some 100\<rparr>]\<rparr>"

text \<open>Four applicable tasks with the progress values 6.1, 80, 18.8 and 13.1, as the
  doubles these literals denote.\<close>

definition fractional_dao :: Dao where
  "fractional_dao =
     \<lparr>tasks = Some [\<lparr>isApplicable = True, progress = Some (toDouble (61 / 10))\<rparr>,
                    \<lparr>isApplicable = True, progress = Some 80\<rparr>,
                    \<lparr>isApplicable = True, progress = Some (toDouble (188 / 10))\<rparr>,
                    \<lparr>isApplicable = True, progress = Some (toDouble (131 / 10))\<rparr>]\<rparr>"

text \<open>An environment with a complete primary transport and an incomplete fallback, every
  probe succeeding, batches of 25, three attempts per job; its \<open>sendMail\<close> is the
  argument. And the engine at rest.\<close>

definition primaryCandidate :: Candidate where
  "primaryCandidate = \<lparr>c_name = ''primary'', c_host = Some ''smtp.example.com'',
      c_user = Some ''mailer'', c_pass = Some ''secret''\<rparr>"

definition sendgridCandidate :: Candidate where
  "sendgridCandidate = \<lparr>c_name = ''sendgrid'', c_host = Some ''smtp.sendgrid.net'',
      c_user = Some ''apikey'', c_pass = None\<rparr>"

definition example_env :: "(nat \<Rightarrow> string \<Rightarrow> string list \<Rightarrow> SmtpError option) \<Rightarrow> Env" where
  "example_env transport =
     \<lparr>dryRun = False, SMTP_DISABLE = False, SMTP_BATCH_SIZE = 25, SMTP_MAX_RETRY = 3,
      SMTP_MAX_CONCURRENT = 3, candidates = [primaryCandidate, sendgridCandidate],
      verify = (\<lambda>host. None), sendMail = transport,
      randomUUID = (\<lambda>k. ''job-'' @ String_of_nat k),
      clock = (\<lambda>k. ''2025-01-01T00:00:00.000Z'')\<rparr>"

definition idleEngine :: Engine where
  "idleEngine = \<lparr>emailQueue = [], persistedQueue = [], isProcessingQueue = False, totalSent = 0,
      totalFailed = 0, emailEvents = [], lastTransportError = None, sendMailCalls = [],
      uuidCount = 0\<rparr>"

text \<open>Two transports: one that times out on its first invocation only, one that rejects
  its second invocation only with the permanent SMTP code 550.\<close>

definition timeoutOnce :: "nat \<Rightarrow> string \<Rightarrow> string list \<Rightarrow> SmtpError option" where
  "timeoutOnce k host bcc =
     (if k = 0 then Some \<lparr>responseCode = None, err_code = Some ''ETIMEDOUT'',
                          err_message = ''Connection timeout'', err_name = ''Error''\<rparr>
      else None)"




text \<open>A mirroring failure with a given error code at a given time (milliseconds).\<close>

definition failureAt :: "string \<Rightarrow> int \<Rightarrow> MirrorFailure" where
  "failureAt code nowMs =
     \<lparr>f_error = \<lparr>es_message = ''send failed'', es_code = Some code, permanent = False,
                  summary = None\<rparr>,
      f_nowMs = nowMs, f_newId = ''srv_notif_1'', f_nowIso = ''2025-01-01T00:00:00.000Z''\<rparr>"

definition emptyService :: Service where
  "emptyService = \<lparr>notifications = [], cooldown = initialCooldown\<rparr>"

section \<open>Verification: the email validator\<close>

lemma trim_Nil: "trim [] = []" by (simp add: trim_def)

lemma normalizeEmail_Some_truthy: "normalizeEmail v = Some n \<Longrightarrow> truthy v"
  by (cases v) (auto simp: trim_Nil Let_def split: if_splits)

lemma EMAIL_REGEX_test_Nil: "\<not> EMAIL_REGEX_test []"
  by (simp add: EMAIL_REGEX_test_def)

lemma normalizeEmail_None_echo:
  "normalizeEmail v = None \<Longrightarrow> truthy v \<Longrightarrow> trim (String_of v) = []"
  by (cases v) (auto simp: Let_def split: if_splits)

lemma partitionStep_valid:
  "set (valid (partitionStep acc v)) \<subseteq> set (valid acc) \<union> {n. EMAIL_REGEX_test n}"
  by (auto simp: partitionStep_def split: option.splits if_splits)

lemma partitionStep_invalid:
  "set (invalid (partitionStep acc v)) \<subseteq> set (invalid acc) \<union> {n. \<not> EMAIL_REGEX_test n}"
  by (auto simp: partitionStep_def EMAIL_REGEX_test_Nil normalizeEmail_None_echo
      split: option.splits if_splits)

lemma foldl_partition_valid:
  "set (valid (foldl partitionStep acc xs)) \<subseteq> set (valid acc) \<union> {n. EMAIL_REGEX_test n}"
proof (induction xs arbitrary: acc)
  case Nil
  then show ?case by simp
next
  case (Cons x xs)
  show ?case using Cons.IH [of "partitionStep acc x"] partitionStep_valid [of acc x] by auto
qed

lemma foldl_partition_invalid:
  "set (invalid (foldl partitionStep acc xs)) \<subseteq> set (invalid acc) \<union> {n. \<not> EMAIL_REGEX_test n}"
proof (induction xs arbitrary: acc)
  case Nil
  then show ?case by simp
next
  case (Cons x xs)
  show ?case using Cons.IH [of "partitionStep acc x"] partitionStep_invalid [of acc x] by auto
qed

lemma foldl_partition_mono:
  "set (valid acc) \<subseteq> set (valid (foldl partitionStep acc xs)) \<and>
   set (invalid acc) \<subseteq> set (invalid (foldl partitionStep acc xs))"
proof (induction xs arbitrary: acc)
  case Nil
  then show ?case by simp
next
  case (Cons x xs)
  have "set (valid acc) \<subseteq> set (valid (partitionStep acc x)) \<and>
        set (invalid acc) \<subseteq> set (invalid (partitionStep acc x))"
    by (auto simp: partitionStep_def split: option.splits)
  then show ?case using Cons.IH [of "partitionStep acc x"] by auto
qed

text \<open>What one truthy input contributes.\<close>
lemma partitionStep_accounts:
  "truthy v \<Longrightarrow>
   (case normalizeEmail v of
      Some n \<Rightarrow> (if EMAIL_REGEX_test n then n \<in> set (valid (partitionStep acc v))
                 else n \<in> set (invalid (partitionStep acc v)))
    | None \<Rightarrow> trim (String_of v) \<in> set (invalid (partitionStep acc v)))"
  by (auto simp: partitionStep_def split: option.splits)

lemma foldl_partition_accounts:
  "v \<in> set xs \<Longrightarrow> truthy v \<Longrightarrow>
   (case normalizeEmail v of
      Some n \<Rightarrow> (if EMAIL_REGEX_test n then n \<in> set (valid (foldl partitionStep acc xs))
                 else n \<in> set (invalid (foldl partitionStep acc xs)))
    | None \<Rightarrow> trim (String_of v) \<in> set (invalid (foldl partitionStep acc xs)))"
proof (induction xs arbitrary: acc)
  case Nil
  then show ?case by simp
next
  case (Cons x xs)
  show ?case
  proof (cases "v = x")
    case True
    then show ?thesis
      using partitionStep_accounts [OF Cons.prems(2), of acc]
        foldl_partition_mono [of "partitionStep acc x" xs]
      by (auto split: option.splits if_splits)
  next
    case False
    then have "v \<in> set xs" using Cons.prems(1) by simp
    then show ?thesis using Cons.IH [OF _ Cons.prems(2), of "partitionStep acc x"]
      by (auto split: option.splits if_splits)
  qed
qed

lemma partitionStep_count:
  "length (valid (partitionStep acc v)) + length (invalid (partitionStep acc v)) =
   length (valid acc) + length (invalid acc) + (if truthy v then 1 else 0)"
  using normalizeEmail_Some_truthy [of v]
  by (auto simp: partitionStep_def split: option.splits)

lemma foldl_partition_count:
  "length (valid (foldl partitionStep acc xs)) + length (invalid (foldl partitionStep acc xs)) =
   length (valid acc) + length (invalid acc) + length (filter truthy xs)"
proof (induction xs arbitrary: acc)
  case Nil
  then show ?case by simp
next
  case (Cons x xs)
  show ?case using Cons.IH [of "partitionStep acc x"] partitionStep_count [of acc x] by simp
qed

text \<open>
  Claim C6. For every list of raw values (each a string, null or undefined):
  no value stands in both \<open>valid\<close> and \<open>invalid\<close>; every truthy input is accounted for,
  by its normalized form in \<open>valid\<close> when that matches the address grammar, by its
  normalized form in \<open>invalid\<close> when it does not, and by its trimmed echo in \<open>invalid\<close>
  when it has no normalized form; and the two lists together hold exactly one entry per
  truthy input, so only null, undefined and the empty string are dropped.
\<close>

theorem partitionEmails_disjoint_and_accounted:
  "set (valid (partitionEmails inputs)) \<inter> set (invalid (partitionEmails inputs)) = {} \<and>
   (\<forall>v \<in> set inputs. truthy v \<longrightarrow>
      (case normalizeEmail v of
         Some n \<Rightarrow> (if EMAIL_REGEX_test n then n \<in> set (valid (partitionEmails inputs))
                    else n \<in> set (invalid (partitionEmails inputs)))
       | None \<Rightarrow> trim (String_of v) \<in> set (invalid (partitionEmails inputs)))) \<and>
   length (valid (partitionEmails inputs)) + length (invalid (partitionEmails inputs)) =
     length (filter truthy inputs)"
proof (intro conjI ballI impI)
  show "set (valid (partitionEmails inputs)) \<inter> set (invalid (partitionEmails inputs)) = {}"
    using foldl_partition_valid [of "\<lparr>valid = [], invalid = []\<rparr>" inputs]
      foldl_partition_invalid [of "\<lparr>valid = [], invalid = []\<rparr>" inputs]
    by (auto simp: partitionEmails_def)
next
  fix v assume "v \<in> set inputs" "truthy v"
  then show "case normalizeEmail v of
         Some n \<Rightarrow> (if EMAIL_REGEX_test n then n \<in> set (valid (partitionEmails inputs))
                    else n \<in> set (invalid (partitionEmails inputs)))
       | None \<Rightarrow> trim (String_of v) \<in> set (invalid (partitionEmails inputs))"
    unfolding partitionEmails_def by (rule foldl_partition_accounts)
next
  show "length (valid (partitionEmails inputs)) + length (invalid (partitionEmails inputs)) =
     length (filter truthy inputs)"
    using foldl_partition_count [of "\<lparr>valid = [], invalid = []\<rparr>" inputs]
    by (simp add: partitionEmails_def)
qed

theorem partitionEmails_disjoint_and_accounted_witness:
  "partitionEmails [Str '' Alice@Example.COM '', Str ''not-an-email'', Null, Str ''  '',
                    Str [], Undefined, Str ''b@x.com''] =
     \<lparr>valid = [''alice@example.com'', ''b@x.com''], invalid = [''not-an-email'', []]\<rparr> \<and>
   truthy (Str ''not-an-email'') \<and>
   normalizeEmail (Str ''not-an-email'') = Some ''not-an-email'' \<and>
   \<not> EMAIL_REGEX_test ''not-an-email'' \<and>
   ''not-an-email'' \<in> set (invalid (partitionEmails
       [Str '' Alice@Example.COM '', Str ''not-an-email'', Null, Str ''  '',
        Str [], Undefined, Str ''b@x.com''])) \<and>
   set (valid (partitionEmails
       [Str '' Alice@Example.COM '', Str ''not-an-email'', Null, Str ''  '',
        Str [], Undefined, Str ''b@x.com''])) \<inter>
   set (invalid (partitionEmails
       [Str '' Alice@Example.COM '', Str ''not-an-email'', Null, Str ''  '',
        Str [], Undefined, Str ''b@x.com''])) = {}"
proof -
  let ?inputs = "[Str '' Alice@Example.COM '', Str ''not-an-email'', Null, Str ''  '',
                  Str [], Undefined, Str ''b@x.com'']"
  have run: "partitionEmails ?inputs =
      \<lparr>valid = [''alice@example.com'', ''b@x.com''], invalid = [''not-an-email'', []]\<rparr>"
    by code_simp
  have norm: "normalizeEmail (Str ''not-an-email'') = Some ''not-an-email''"
    by code_simp
  have bad: "\<not> EMAIL_REGEX_test ''not-an-email''"
    by code_simp
  have mem: "Str ''not-an-email'' \<in> set ?inputs" and tr: "truthy (Str ''not-an-email'')"
    by simp_all
  from partitionEmails_disjoint_and_accounted [of ?inputs]
  have disj: "set (valid (partitionEmails ?inputs)) \<inter> set (invalid (partitionEmails ?inputs)) = {}"
    and acc: "\<forall>v \<in> set ?inputs. truthy v \<longrightarrow>
      (case normalizeEmail v of
         Some n \<Rightarrow> (if EMAIL_REGEX_test n then n \<in> set (valid (partitionEmails ?inputs))
                    else n \<in> set (invalid (partitionEmails ?inputs)))
       | None \<Rightarrow> trim (String_of v) \<in> set (invalid (partitionEmails ?inputs)))"
    by blast+
  from acc mem tr have
    "(case normalizeEmail (Str ''not-an-email'') of
         Some n \<Rightarrow> (if EMAIL_REGEX_test n then n \<in> set (valid (partitionEmails ?inputs))
                    else n \<in> set (invalid (partitionEmails ?inputs)))
       | None \<Rightarrow> trim (String_of (Str ''not-an-email'')) \<in> set (invalid (partitionEmails ?inputs)))"
    by blast
  with norm bad have "''not-an-email'' \<in> set (invalid (partitionEmails ?inputs))"
    by simp
  with run norm bad tr disj show ?thesis by blast
qed

section \<open>Verification: the notification store\<close>

lemma markAllRead_loop_eq:
  "markAllRead_loop u ns c =
     (c + length (filter (\<lambda>n. isRecipient u n \<and> u \<notin> readBy n) ns),
      map (\<lambda>n. if isRecipient u n \<and> u \<notin> readBy n then n\<lparr>readBy := insert u (readBy n)\<rparr> else n) ns)"
  by (induction ns arbitrary: c) (simp_all add: Let_def)

lemma isRecipient_readBy_update [simp]:
  "isRecipient u (n\<lparr>readBy := r\<rparr>) = isRecipient u n"
  by (simp add: isRecipient_def)

lemma markAllRead_eq:
  "markAllRead u ns =
     (length (filter (\<lambda>n. isRecipient u n \<and> u \<notin> readBy n) ns),
      map (\<lambda>n. if isRecipient u n \<and> u \<notin> readBy n then n\<lparr>readBy := insert u (readBy n)\<rparr> else n) ns)"
  by (simp add: markAllRead_def markAllRead_loop_eq)

lemma no_unread_after:
  "filter (\<lambda>n. isRecipient u n \<and> u \<notin> readBy n)
     (map (\<lambda>n. if isRecipient u n \<and> u \<notin> readBy n then n\<lparr>readBy := insert u (readBy n)\<rparr> else n) ns) = []"
  by (induction ns) auto

text \<open>
  Claim C7. For every store and user \<open>u\<close> with at least one notification visible to \<open>u\<close>
  and unread by \<open>u\<close>: \<open>markAllRead u\<close> returns a positive count, and called again on the
  store it left, returns 0 and changes nothing. Each call returns the number of visible
  notifications unread by \<open>u\<close> and adds \<open>u\<close> to the readers of exactly those.
\<close>

theorem markAllRead_twice:
  assumes "n \<in> set ns" and "isRecipient u n" and "u \<notin> readBy n"
  shows "0 < fst (markAllRead u ns) \<and>
         fst (markAllRead u (snd (markAllRead u ns))) = 0 \<and>
         fst (markAllRead u ns) = length (filter (\<lambda>n. isRecipient u n \<and> u \<notin> readBy n) ns) \<and>
         snd (markAllRead u ns) =
           map (\<lambda>n. if isRecipient u n \<and> u \<notin> readBy n
                    then n\<lparr>readBy := insert u (readBy n)\<rparr> else n) ns \<and>
         snd (markAllRead u (snd (markAllRead u ns))) = snd (markAllRead u ns)"
proof -
  have "n \<in> set (filter (\<lambda>n. isRecipient u n \<and> u \<notin> readBy n) ns)"
    using assms by simp
  then have pos: "0 < length (filter (\<lambda>n. isRecipient u n \<and> u \<notin> readBy n) ns)"
    by (metis length_pos_if_in_set)
  have same: "map (\<lambda>n. if isRecipient u n \<and> u \<notin> readBy n then n\<lparr>readBy := insert u (readBy n)\<rparr> else n)
      (map (\<lambda>n. if isRecipient u n \<and> u \<notin> readBy n then n\<lparr>readBy := insert u (readBy n)\<rparr> else n) ns)
     = map (\<lambda>n. if isRecipient u n \<and> u \<notin> readBy n then n\<lparr>readBy := insert u (readBy n)\<rparr> else n) ns"
    by (induction ns) auto
  show ?thesis
    using pos same by (simp add: markAllRead_eq no_unread_after)
qed

theorem markAllRead_twice_witness:
  "example_broadcast \<in> set [example_broadcast, example_targeted] \<and>
   isRecipient ''u1'' example_broadcast \<and> ''u1'' \<notin> readBy example_broadcast \<and>
   fst (markAllRead ''u1'' [example_broadcast, example_targeted]) = 1 \<and>
   fst (markAllRead ''u1'' (snd (markAllRead ''u1'' [example_broadcast, example_targeted]))) = 0 \<and>
   snd (markAllRead ''u1'' [example_broadcast, example_targeted]) =
     [example_broadcast\<lparr>readBy := {''u1''}\<rparr>, example_targeted]"
proof -
  have h: "example_broadcast \<in> set [example_broadcast, example_targeted]"
    "isRecipient ''u1'' example_broadcast" "''u1'' \<notin> readBy example_broadcast"
    by (simp_all add: example_broadcast_def isRecipient_def)
  have t: "\<not> isRecipient ''u1'' example_targeted"
    by (simp add: example_targeted_def isRecipient_def)
  have e: "readBy example_broadcast = {}"
    by (simp add: example_broadcast_def)
  note r = markAllRead_twice [OF h]
  have one: "fst (markAllRead ''u1'' [example_broadcast, example_targeted]) = 1"
    using r h t by simp
  have two: "fst (markAllRead ''u1'' (snd (markAllRead ''u1'' [example_broadcast, example_targeted]))) = 0"
    using r by blast
  have three: "snd (markAllRead ''u1'' [example_broadcast, example_targeted]) =
     [example_broadcast\<lparr>readBy := {''u1''}\<rparr>, example_targeted]"
    using r h t e by simp
  show ?thesis
    using h one two three by blast
qed

lemma addReader_length: "length (addReader u i ns) = length ns"
  by (induction ns) auto

lemma addReader_nth:
  "k < length ns \<Longrightarrow>
   addReader u i ns ! k =
     (if n_id (ns ! k) = i \<and> i \<notin> set (map n_id (take k ns))
      then (ns ! k)\<lparr>readBy := insert u (readBy (ns ! k))\<rparr> else ns ! k)"
proof (induction ns arbitrary: k)
  case Nil
  then show ?case by simp
next
  case (Cons n ns)
  show ?case
  proof (cases k)
    case 0
    then show ?thesis by simp
  next
    case (Suc k')
    then have k': "k' < length ns" using Cons.prems by simp
    show ?thesis using Suc Cons.IH [OF k'] by auto
  qed
qed

lemma find_None_addReader: "find (\<lambda>n. n_id n = i) ns = None \<Longrightarrow> addReader u i ns = ns"
  by (induction ns) (auto split: if_splits)

lemma find_first:
  "find (\<lambda>n. n_id n = i) ns = Some n \<Longrightarrow> k < length ns \<Longrightarrow> n_id (ns ! k) = i \<Longrightarrow>
   i \<notin> set (map n_id (take k ns)) \<Longrightarrow> ns ! k = n"
proof (induction ns arbitrary: k)
  case Nil
  then show ?case by simp
next
  case (Cons m ns)
  show ?case
  proof (cases k)
    case 0
    then show ?thesis using Cons.prems by simp
  next
    case (Suc k')
    then show ?thesis using Cons.prems Cons.IH [of k'] by (auto split: if_splits)
  qed
qed

text \<open>
  Claim C10. For every store, user \<open>u\<close> and id: \<open>markRead u id\<close> keeps the list's length
  and order; a call that returns false changes nothing; at every position the
  notification keeps all its fields but \<open>readBy\<close>; and \<open>readBy\<close> changes at one position
  at most, the first one holding the id, where \<open>u\<close> is a recipient, \<open>u\<close> is added and
  the call returns true.
\<close>

theorem markRead_frame:
  "length (snd (markRead u i ns)) = length ns \<and>
   (\<not> fst (markRead u i ns) \<longrightarrow> snd (markRead u i ns) = ns) \<and>
   (\<forall>k < length ns.
      snd (markRead u i ns) ! k = (ns ! k)\<lparr>readBy := readBy (snd (markRead u i ns) ! k)\<rparr> \<and>
      (readBy (snd (markRead u i ns) ! k) = readBy (ns ! k) \<or>
       (fst (markRead u i ns) \<and> n_id (ns ! k) = i \<and> i \<notin> set (map n_id (take k ns)) \<and>
        isRecipient u (ns ! k) \<and>
        readBy (snd (markRead u i ns) ! k) = insert u (readBy (ns ! k)))))"
proof (cases "find (\<lambda>n. n_id n = i) ns")
  case None
  then show ?thesis by (simp add: markRead_def)
next
  case (Some n)
  show ?thesis
  proof (cases "isRecipient u n")
    case False
    then show ?thesis using Some by (simp add: markRead_def)
  next
    case True
    have res: "markRead u i ns = (True, addReader u i ns)"
      using Some True by (simp add: markRead_def)
    show ?thesis
      unfolding res using True find_first [OF Some]
      by (auto simp: addReader_length addReader_nth)
  qed
qed


theorem markRead_frame_witness:
  "markRead ''u1'' ''n1'' [example_targeted, example_broadcast] =
     (True, [example_targeted, example_broadcast\<lparr>readBy := {''u1''}\<rparr>]) \<and>
   \<not> fst (markRead ''u1'' ''n2'' [example_targeted, example_broadcast]) \<and>
   snd (markRead ''u1'' ''n2'' [example_targeted, example_broadcast]) =
     [example_targeted, example_broadcast] \<and>
   (0::nat) < length [example_targeted, example_broadcast] \<and>
   snd (markRead ''u1'' ''n1'' [example_targeted, example_broadcast]) ! 0 = example_targeted"
proof -
  have t: "\<not> isRecipient ''u1'' example_targeted" "n_id example_targeted = ''n2''"
    by (simp_all add: example_targeted_def isRecipient_def)
  have b: "isRecipient ''u1'' example_broadcast" "n_id example_broadcast = ''n1''"
    "readBy example_broadcast = {}"
    by (simp_all add: example_broadcast_def isRecipient_def)
  show ?thesis
    using markRead_frame [of "''u1''" "''n2''" "[example_targeted, example_broadcast]"] t b
    by (simp add: markRead_def)
qed

section \<open>Verification: the audit log\<close>

lemma takeWhile_dropWhile_Nil: "takeWhile P (dropWhile P xs) = []"
  by (induction xs) auto

lemma replaceLocalPart_local:
  "takeWhile (\<lambda>c. c \<noteq> CHR ''@'') (replaceLocalPart s) \<in> {[], ''***''}"
  by (simp add: replaceLocalPart_def takeWhile_dropWhile_Nil)

lemma maskEmail_local:
  "takeWhile (\<lambda>c. c \<noteq> CHR ''@'') (maskEmail e) \<in> {[], ''***''}"
  using replaceLocalPart_local by (simp add: maskEmail_def Let_def)

lemma maskEmail_cases:
  "maskEmail e =
     (if \<not> truthy e then ''***@***''
      else if takeWhile (\<lambda>c. c \<noteq> CHR ''@'') (trim (String_of e)) = [] then trim (String_of e)
      else ''***'' @ dropWhile (\<lambda>c. c \<noteq> CHR ''@'') (trim (String_of e)))"
  by (simp add: maskEmail_def replaceLocalPart_def Let_def)

lemma recordAutoUserEvent_set:
  "r \<in> set (recordAutoUserEvent entry now store) \<Longrightarrow>
   r \<in> set store \<or> emailMasked r = maskEmail (e_email entry)"
  by (auto simp: recordAutoUserEvent_def Let_def split: if_splits dest: in_set_takeD)

lemma audit_fold_origin:
  "r \<in> set (foldl audit_call_run store calls) \<Longrightarrow>
   r \<in> set store \<or> (\<exists>entry now. Record entry now \<in> set calls \<and> emailMasked r = maskEmail (e_email entry))"
proof (induction calls arbitrary: store)
  case Nil
  then show ?case by simp
next
  case (Cons c calls)
  from Cons.IH [OF Cons.prems [simplified]]
  consider "r \<in> set (audit_call_run store c)"
    | "\<exists>entry now. Record entry now \<in> set calls \<and> emailMasked r = maskEmail (e_email entry)"
    by blast
  then show ?case
  proof cases
    case 1
    then show ?thesis
      by (cases c) (auto simp: clearAutoUserEvents_def dest: recordAutoUserEvent_set)
  next
    case 2
    then show ?thesis by auto
  qed
qed

text \<open>
  Every stored \<open>emailMasked\<close> comes from the email of a recorded event: it is \<open>***@***\<close>
  when the email is missing or empty; otherwise the trimmed email with its leading run of
  characters other than \<open>@\<close> replaced by \<open>***\<close>, or the trimmed email itself when it has
  no such run.
\<close>

lemma audit_store_origin:
  "\<forall>r \<in> set (audit_run calls).
     takeWhile (\<lambda>c. c \<noteq> CHR ''@'') (emailMasked r) \<in> {[], ''***''} \<and>
     (\<exists>entry now. Record entry now \<in> set calls \<and>
        emailMasked r =
          (if \<not> truthy (e_email entry) then ''***@***''
           else if takeWhile (\<lambda>c. c \<noteq> CHR ''@'') (trim (String_of (e_email entry))) = []
           then trim (String_of (e_email entry))
           else ''***'' @ dropWhile (\<lambda>c. c \<noteq> CHR ''@'') (trim (String_of (e_email entry)))))"
proof
  fix r assume r: "r \<in> set (audit_run calls)"
  then obtain entry now where mem: "Record entry now \<in> set calls"
    and m: "emailMasked r = maskEmail (e_email entry)"
    using audit_fold_origin [of r "[]" calls] by (auto simp: audit_run_def)
  have loc: "takeWhile (\<lambda>c. c \<noteq> CHR ''@'') (emailMasked r) \<in> {[], ''***''}"
    unfolding m by (rule maskEmail_local)
  have "emailMasked r =
          (if \<not> truthy (e_email entry) then ''***@***''
           else if takeWhile (\<lambda>c. c \<noteq> CHR ''@'') (trim (String_of (e_email entry))) = []
           then trim (String_of (e_email entry))
           else ''***'' @ dropWhile (\<lambda>c. c \<noteq> CHR ''@'') (trim (String_of (e_email entry))))"
    unfolding m by (rule maskEmail_cases)
  with mem loc show "takeWhile (\<lambda>c. c \<noteq> CHR ''@'') (emailMasked r) \<in> {[], ''***''} \<and>
     (\<exists>entry now. Record entry now \<in> set calls \<and>
        emailMasked r =
          (if \<not> truthy (e_email entry) then ''***@***''
           else if takeWhile (\<lambda>c. c \<noteq> CHR ''@'') (trim (String_of (e_email entry))) = []
           then trim (String_of (e_email entry))
           else ''***'' @ dropWhile (\<lambda>c. c \<noteq> CHR ''@'') (trim (String_of (e_email entry)))))"
    by blast
qed


section \<open>Verification: progress of a record\<close>

subsection \<open>Rounding to a double\<close>

lemma roundHalfEven_of_int: "roundHalfEven (of_int m) = m"
  by (simp add: roundHalfEven_def)

lemma roundHalfEven_error: "\<bar>of_int (roundHalfEven q) - q\<bar> \<le> 1 / 2"
proof -
  define n where "n = \<lfloor>q\<rfloor>"
  have "of_int n \<le> q" "q < of_int n + 1" unfolding n_def by linarith+
  moreover have "roundHalfEven q =
      (if q - of_int n < 1 / 2 then n else if 1 / 2 < q - of_int n then n + 1
       else if even n then n else n + 1)"
    by (simp add: roundHalfEven_def Let_def n_def)
  ultimately show ?thesis by (simp add: abs_if)
qed

lemma exponentOf_lower:
  assumes "0 < x"
  shows "2 powi exponentOf x \<le> x"
proof (cases "1 \<le> x")
  case True
  let ?m = "\<lfloor>x\<rfloor>"
  have m: "0 < ?m" using True by simp
  have b: "1 \<le> bitlen ?m" using m by (simp add: bitlen_alt_def)
  have "(2::int) ^ nat (bitlen ?m - 1) \<le> ?m" using bitlen_bounds [OF m] by simp
  then have "(of_int ((2::int) ^ nat (bitlen ?m - 1)) :: rat) \<le> of_int ?m"
    by (simp only: of_int_le_iff)
  then have "(2::rat) ^ nat (bitlen ?m - 1) \<le> of_int ?m" by simp
  also have "(of_int ?m :: rat) \<le> x" by (rule of_int_floor_le)
  finally have "(2::rat) ^ nat (bitlen ?m - 1) \<le> x" .
  moreover have "(2::rat) powi (bitlen ?m - 1) = 2 ^ nat (bitlen ?m - 1)"
    using b by (simp add: power_int_nonneg_exp)
  ultimately show ?thesis using True by (simp add: exponentOf_def)
next
  case False
  let ?y = "1 / x"
  let ?m = "\<lfloor>?y\<rfloor>"
  let ?k = "bitlen ?m - 1"
  have y: "1 < ?y" using False assms by simp
  have m: "0 < ?m" using y by simp
  have b: "1 \<le> bitlen ?m" using m by (simp add: bitlen_alt_def)
  have "?m < 2 ^ nat (bitlen ?m)" using bitlen_bounds [OF m] by simp
  then have "?m + 1 \<le> 2 ^ nat (bitlen ?m)" by simp
  then have "(of_int (?m + 1) :: rat) \<le> of_int (2 ^ nat (bitlen ?m))"
    by (simp only: of_int_le_iff)
  then have "(of_int ?m :: rat) + 1 \<le> 2 ^ nat (bitlen ?m)" by simp
  moreover have "?y < of_int ?m + 1" by linarith
  ultimately have lt: "?y < 2 ^ nat (bitlen ?m)" by linarith
  have p: "(2::rat) powi (- ?k - 1) = 1 / 2 ^ nat (bitlen ?m)"
    using b by (simp add: power_int_def field_simps)
  have "1 / 2 ^ nat (bitlen ?m) < x"
    using lt assms by (simp add: field_simps)
  then have "(2::rat) powi (- ?k - 1) < x" using p by simp
  then show ?thesis using False by (auto simp: exponentOf_def Let_def)
qed

lemma exponentOf_upper:
  assumes "0 < x"
  shows "x < 2 powi (exponentOf x + 1)"
proof (cases "1 \<le> x")
  case True
  let ?m = "\<lfloor>x\<rfloor>"
  have m: "0 < ?m" using True by simp
  have b: "0 \<le> bitlen ?m" by (rule bitlen_nonneg)
  have "?m < 2 ^ nat (bitlen ?m)" using bitlen_bounds [OF m] by simp
  then have "?m + 1 \<le> 2 ^ nat (bitlen ?m)" by simp
  then have "(of_int (?m + 1) :: rat) \<le> of_int (2 ^ nat (bitlen ?m))"
    by (simp only: of_int_le_iff)
  then have "(of_int ?m :: rat) + 1 \<le> 2 ^ nat (bitlen ?m)" by simp
  moreover have "x < of_int ?m + 1" by linarith
  ultimately have "x < 2 ^ nat (bitlen ?m)" by linarith
  moreover have "(2::rat) powi (bitlen ?m) = 2 ^ nat (bitlen ?m)"
    using b by (simp add: power_int_nonneg_exp)
  ultimately show ?thesis using True by (simp add: exponentOf_def)
next
  case False
  let ?y = "1 / x"
  let ?m = "\<lfloor>?y\<rfloor>"
  let ?k = "bitlen ?m - 1"
  have y: "1 < ?y" using False assms by simp
  have m: "0 < ?m" using y by simp
  have b: "1 \<le> bitlen ?m" using m by (simp add: bitlen_alt_def)
  have "(2::int) ^ nat ?k \<le> ?m" using bitlen_bounds [OF m] by simp
  then have "(of_int ((2::int) ^ nat ?k) :: rat) \<le> of_int ?m"
    by (simp only: of_int_le_iff)
  then have "(2::rat) ^ nat ?k \<le> of_int ?m" by simp
  also have "(of_int ?m :: rat) \<le> ?y" by (rule of_int_floor_le)
  finally have le: "(2::rat) ^ nat ?k \<le> 1 / x" .
  have p: "(2::rat) powi (- ?k) = 1 / 2 ^ nat ?k"
    using b by (simp add: power_int_def field_simps)
  have "x * 2 ^ nat ?k \<le> 1" using le assms by (simp add: field_simps)
  then have xle: "x \<le> 2 powi (- ?k)" unfolding p by (simp add: field_simps)
  show ?thesis
  proof (cases "x = 2 powi (- ?k)")
    case True
    have "(2::rat) powi (- ?k) < 2 powi (- ?k + 1)"
      by (intro power_int_strict_increasing) simp_all
    then have "x < 2 powi (- ?k + 1)" using True by simp
    moreover have "exponentOf x = - ?k" using False True by (simp add: exponentOf_def Let_def)
    ultimately show ?thesis by simp
  next
    case neq: False
    then have "x < 2 powi (- ?k)" using xle by simp
    moreover have "exponentOf x = - ?k - 1" using False neq by (simp add: exponentOf_def Let_def)
    ultimately show ?thesis by simp
  qed
qed

text \<open>The double of the literal \<open>0.1\<close>: \<open>0x1.999999999999ap-4\<close>.\<close>

lemma toDouble_tenth: "toDouble (1 / 10) = 3602879701896397 / 36028797018963968"
  by code_simp

lemma exponentOf_less:
  assumes "0 < x" and "x < 2 powi N" and "0 \<le> N"
  shows "exponentOf x < N"
proof -
  have "(2::rat) powi exponentOf x < 2 powi N"
    using exponentOf_lower [OF assms(1)] assms(2) by linarith
  then show ?thesis using power_int_le_imp_less_exp [of 2 "exponentOf x" N] assms(3) by simp
qed

lemma toDouble_pos:
  "0 < x \<Longrightarrow>
   toDouble x = of_int (roundHalfEven (x / 2 powi (exponentOf x - 52))) * 2 powi (exponentOf x - 52)"
  by (simp add: toDouble_def Let_def)

lemma toDouble_error:
  assumes "0 < x"
  shows "\<bar>toDouble x - x\<bar> \<le> 2 powi (exponentOf x - 53)"
proof -
  let ?u = "(2::rat) powi (exponentOf x - 52)"
  have u: "0 < ?u" by (simp add: zero_less_power_int)
  have half: "?u / 2 = 2 powi (exponentOf x - 53)"
    using power_int_diff [of "2::rat" "exponentOf x - 52" 1] by simp
  have "toDouble x - x = (of_int (roundHalfEven (x / ?u)) - x / ?u) * ?u"
    using u by (simp add: toDouble_pos [OF assms] field_simps)
  then have "\<bar>toDouble x - x\<bar> = \<bar>of_int (roundHalfEven (x / ?u)) - x / ?u\<bar> * ?u"
    using u by (simp add: abs_mult)
  also have "\<dots> \<le> 1 / 2 * ?u"
    using roundHalfEven_error [of "x / ?u"] u by (intro mult_right_mono) simp_all
  finally show ?thesis using half by simp
qed

lemma toDouble_exact:
  assumes "0 < x" and "x < 2 powi 52" and "x = of_int m / 2"
  shows "toDouble x = x"
proof -
  let ?e = "exponentOf x"
  let ?u = "(2::rat) powi (?e - 52)"
  have e: "?e < 52" using exponentOf_less [OF assms(1,2)] by simp
  have u: "0 < ?u" by (simp add: zero_less_power_int)
  have "1 / ?u = 2 powi (52 - ?e)"
    using power_int_minus [of "2::rat" "?e - 52"] by (simp add: field_simps)
  also have "\<dots> = 2 powi (51 - ?e) * 2"
    using power_int_add [of "2::rat" "51 - ?e" 1] by simp
  also have "\<dots> = 2 ^ nat (51 - ?e) * 2"
    using e by (simp add: power_int_nonneg_exp)
  finally have inv: "1 / ?u = 2 ^ nat (51 - ?e) * 2" .
  have x2: "x * 2 = of_int m" using assms(3) by simp
  have "x / ?u = x * (1 / ?u)" by simp
  also have "\<dots> = x * (2 ^ nat (51 - ?e) * 2)" by (simp only: inv)
  also have "\<dots> = x * 2 * 2 ^ nat (51 - ?e)" by simp
  also have "\<dots> = of_int m * 2 ^ nat (51 - ?e)" by (simp only: x2)
  also have "\<dots> = of_int (m * 2 ^ nat (51 - ?e))" by simp
  finally have q: "x / ?u = of_int (m * 2 ^ nat (51 - ?e))" .
  have "toDouble x = of_int (roundHalfEven (x / ?u)) * ?u"
    by (rule toDouble_pos [OF assms(1)])
  also have "\<dots> = x / ?u * ?u" by (simp only: q roundHalfEven_of_int)
  also have "\<dots> = x" using u by simp
  finally show ?thesis .
qed

lemma toDouble_int:
  assumes "0 \<le> a" and "a < 2 ^ 52"
  shows "toDouble (of_int a) = of_int a"
proof (cases "a = 0")
  case True
  then show ?thesis by (simp add: toDouble_def)
next
  case False
  then have p: "0 < (of_int a :: rat)" using assms(1) by simp
  have "(of_int a :: rat) < of_int (2 ^ 52)" using assms(2) by (simp only: of_int_less_iff)
  then have l: "(of_int a :: rat) < 2 powi 52" by simp
  have h: "(of_int a :: rat) = of_int (2 * a) / 2" by simp
  show ?thesis using toDouble_exact [OF p l h] .
qed


lemma integerPercent_progressOf:
  assumes "integerPercent t"
  shows "\<exists>m. progressOf t = of_int m \<and> 0 \<le> m \<and> m \<le> 100"
proof (cases "progress t")
  case None
  then show ?thesis by (simp add: progressOf_def)
next
  case (Some p)
  then have p: "p = of_int \<lfloor>p\<rfloor>" "0 \<le> p" "p \<le> 100"
    using assms by (simp_all add: integerPercent_def)
  have "0 \<le> \<lfloor>p\<rfloor>" using p(2) by simp
  moreover have "\<lfloor>p\<rfloor> \<le> 100" using p(3) by (simp add: floor_le_iff)
  moreover have "progressOf t = of_int \<lfloor>p\<rfloor>" using Some p(1) by (simp add: progressOf_def)
  ultimately show ?thesis by blast
qed

lemma sum_list_integerPercent:
  assumes "\<forall>t\<in>set ts. integerPercent t"
  shows "\<exists>b. sum_list (map progressOf ts) = of_int b \<and> 0 \<le> b \<and> b \<le> 100 * int (length ts)"
  using assms
proof (induction ts)
  case Nil
  then show ?case by simp
next
  case (Cons t ts)
  then obtain b where b: "sum_list (map progressOf ts) = of_int b" "0 \<le> b" "b \<le> 100 * int (length ts)"
    by auto
  from Cons.prems obtain m where m: "progressOf t = of_int m" "0 \<le> m" "m \<le> 100"
    using integerPercent_progressOf [of t] by auto
  have "sum_list (map progressOf (t # ts)) = of_int (m + b)" using b(1) m(1) by simp
  moreover have "0 \<le> m + b" using b(2) m(2) by simp
  moreover have "m + b \<le> 100 * int (length (t # ts))" using b(3) m(3) by simp
  ultimately show ?case by blast
qed

lemma foldl_toDouble_exact:
  assumes "\<forall>t\<in>set ts. integerPercent t" and "0 \<le> a" and "a + 100 * int (length ts) < 2 ^ 52"
  shows "foldl (\<lambda>acc t. toDouble (acc + (case progress t of None \<Rightarrow> 0 | Some p \<Rightarrow> p))) (of_int a) ts =
         of_int a + sum_list (map progressOf ts)"
  using assms
proof (induction ts arbitrary: a)
  case Nil
  then show ?case by simp
next
  case (Cons t ts)
  from Cons.prems(1) obtain m where m: "progressOf t = of_int m" "0 \<le> m" "m \<le> 100"
    using integerPercent_progressOf [of t] by auto
  have am: "0 \<le> a + m" "a + m < 2 ^ 52" using m(2,3) Cons.prems(2,3) by simp_all
  have step: "toDouble (of_int a + (case progress t of None \<Rightarrow> 0 | Some p \<Rightarrow> p)) = of_int (a + m)"
    using toDouble_int [OF am] m(1) by (simp add: progressOf_def)
  have rest: "a + m + 100 * int (length ts) < 2 ^ 52" using m(3) Cons.prems(3) by simp
  have all: "\<forall>t\<in>set ts. integerPercent t" using Cons.prems(1) by simp
  have "foldl (\<lambda>acc t. toDouble (acc + (case progress t of None \<Rightarrow> 0 | Some p \<Rightarrow> p))) (of_int a) (t # ts) =
        foldl (\<lambda>acc t. toDouble (acc + (case progress t of None \<Rightarrow> 0 | Some p \<Rightarrow> p))) (of_int (a + m)) ts"
    by (simp only: foldl.simps step)
  also have "\<dots> = of_int (a + m) + sum_list (map progressOf ts)"
    by (rule Cons.IH [OF all am(1) rest])
  also have "\<dots> = of_int a + sum_list (map progressOf (t # ts))" using m(1) by simp
  finally show ?case .
qed

lemma Math_round_toDouble_div:
  fixes s :: int and n :: nat
  assumes "0 \<le> s" and "s \<le> 100 * int n" and "0 < n" and "n < 2 ^ 32"
  shows "Math_round (toDouble (of_int s / of_nat n)) = \<lfloor>(of_int s / of_nat n :: rat) + 1 / 2\<rfloor>"
proof (cases "s = 0")
  case True
  then show ?thesis by (simp add: toDouble_def Math_round_def)
next
  case False
  define x :: rat where "x = of_int s / of_nat n"
  define k where "k = \<lfloor>x + 1 / 2\<rfloor>"
  define d where "d = toDouble x"
  let ?N = "of_nat n :: rat"
  have N0: "0 < ?N" using assms(3) by simp
  have xN: "x * ?N = of_int s" using N0 by (simp add: x_def)
  have "(of_int s :: rat) \<le> of_int (100 * int n)" using assms(2) by (simp only: of_int_le_iff)
  then have "x * ?N \<le> 100 * ?N" by (simp add: xN)
  then have xle: "x \<le> 100" using N0 by simp
  have "(0::rat) < of_int s" using False assms(1) by simp
  then have "0 < x * ?N" by (simp only: xN)
  then have xpos: "0 < x" using N0 by (simp add: zero_less_mult_iff)
  have x7: "x < 2 powi 7" using xle by simp
  have x52: "x < 2 powi 52" using xle by simp
  have e: "exponentOf x < 7" using exponentOf_less [OF xpos x7] by simp
  have "\<bar>d - x\<bar> \<le> 2 powi (exponentOf x - 53)" unfolding d_def by (rule toDouble_error [OF xpos])
  also have "\<dots> \<le> 2 powi (- 47)" using e by (intro power_int_increasing) simp_all
  finally have err: "\<bar>d - x\<bar> \<le> 2 powi (- 47)" .
  have "int n < 2 ^ 32" using assms(4) by (simp add: of_nat_less_iff [of n "2 ^ 32", where ?'a = int, simplified])
  then have "(of_int (int n) :: rat) < of_int (2 ^ 32)" by (simp only: of_int_less_iff)
  then have N32: "?N < 2 ^ 32" by simp
  have p47: "(2::rat) powi (- 47) = 1 / 2 ^ 47" by (simp add: power_int_def field_simps)
  have "2 * ?N * 1 < 2 ^ 47 * 1" using N32 by simp
  then have "1 / 2 ^ 47 < 1 / (2 * ?N)" using N0 by (simp add: field_simps)
  then have gap: "2 powi (- 47) < 1 / (2 * ?N)" by (simp only: p47)
  have k1: "of_int k \<le> x + 1 / 2" unfolding k_def by (rule of_int_floor_le)
  have k2: "x + 1 / 2 < of_int k + 1" unfolding k_def by linarith
  have step: "1 / (2 * ?N) * (2 * ?N) = 1" using N0 by simp
  have upper: "d + 1 / 2 < of_int k + 1"
  proof -
    have "(x + 1 / 2) * (2 * ?N) < (of_int k + 1) * (2 * ?N)"
      using k2 N0 by (intro mult_strict_right_mono) simp_all
    then have "2 * (x * ?N) + ?N < 2 * of_int k * ?N + 2 * ?N" by (simp add: algebra_simps)
    then have "(of_int (2 * s + int n) :: rat) < of_int (2 * k * int n + 2 * int n)"
      by (simp add: xN)
    then have "2 * s + int n < 2 * k * int n + 2 * int n" by (simp only: of_int_less_iff)
    then have "2 * s + int n + 1 \<le> 2 * k * int n + 2 * int n" by simp
    then have "(of_int (2 * s + int n + 1) :: rat) \<le> of_int (2 * k * int n + 2 * int n)"
      by (simp only: of_int_le_iff)
    then have "2 * (x * ?N) + ?N + 1 \<le> 2 * of_int k * ?N + 2 * ?N" by (simp add: xN)
    then have "(x + 1 / 2 + 1 / (2 * ?N)) * (2 * ?N) \<le> (of_int k + 1) * (2 * ?N)"
      using step by (simp add: algebra_simps)
    then have "x + 1 / 2 + 1 / (2 * ?N) \<le> of_int k + 1"
      using N0 by simp
    then show ?thesis using err gap by linarith
  qed
  have lower: "of_int k \<le> d + 1 / 2"
  proof (cases "of_int k = x + 1 / 2")
    case True
    then have "x = of_int (2 * k - 1) / 2" by simp
    then have "d = x" unfolding d_def using toDouble_exact [OF xpos x52] by blast
    then show ?thesis using True by simp
  next
    case False
    then have lt: "of_int k < x + 1 / 2" using k1 by simp
    have "of_int k * (2 * ?N) < (x + 1 / 2) * (2 * ?N)"
      using lt N0 by (intro mult_strict_right_mono) simp_all
    then have "2 * of_int k * ?N < 2 * (x * ?N) + ?N" by (simp add: algebra_simps)
    then have "(of_int (2 * k * int n) :: rat) < of_int (2 * s + int n)"
      by (simp add: xN)
    then have "2 * k * int n < 2 * s + int n" by (simp only: of_int_less_iff)
    then have "2 * k * int n + 1 \<le> 2 * s + int n" by simp
    then have "(of_int (2 * k * int n + 1) :: rat) \<le> of_int (2 * s + int n)"
      by (simp only: of_int_le_iff)
    then have "2 * of_int k * ?N + 1 \<le> 2 * (x * ?N) + ?N" by (simp add: xN)
    then have "(of_int k + 1 / (2 * ?N)) * (2 * ?N) \<le> (x + 1 / 2) * (2 * ?N)"
      using step by (simp add: algebra_simps)
    then have "of_int k + 1 / (2 * ?N) \<le> x + 1 / 2"
      using N0 by simp
    then show ?thesis using err gap by linarith
  qed
  have "\<lfloor>d + 1 / 2\<rfloor> = k" using lower upper by (simp add: floor_unique)
  then show ?thesis by (simp add: Math_round_def d_def x_def k_def)
qed


subsection \<open>The progress of a record\<close>

lemma Math_round_round: "Math_round x = round x"
  by (simp add: Math_round_def round_def)

lemma computeDaoProgress_spec:
  assumes "list_all integerPercent (filter isApplicable (case tasks dao of None \<Rightarrow> [] | Some ts \<Rightarrow> ts))"
    and "length (filter isApplicable (case tasks dao of None \<Rightarrow> [] | Some ts \<Rightarrow> ts)) < 2 ^ 32"
  shows "computeDaoProgress dao = spec_progress (case tasks dao of None \<Rightarrow> [] | Some ts \<Rightarrow> ts)"
proof (cases "filter isApplicable (case tasks dao of None \<Rightarrow> [] | Some ts \<Rightarrow> ts) = []")
  case True
  then show ?thesis by (simp add: computeDaoProgress_def spec_progress_def)
next
  case False
  let ?app = "filter isApplicable (case tasks dao of None \<Rightarrow> [] | Some ts \<Rightarrow> ts)"
  let ?n = "length ?app"
  have n0: "0 < ?n" using False by simp
  have all: "\<forall>t\<in>set ?app. integerPercent t" using assms(1) by (simp only: list_all_iff)
  obtain b where b: "sum_list (map progressOf ?app) = of_int b" "0 \<le> b" "b \<le> 100 * int ?n"
    using sum_list_integerPercent [OF all] by blast
  have "int ?n < 2 ^ 32" using assms(2) by (simp add: of_nat_less_iff [of ?n "2 ^ 32", where ?'a = int, simplified])
  then have bound: "0 + 100 * int ?n < 2 ^ 52" by simp
  have "foldl (\<lambda>acc t. toDouble (acc + (case progress t of None \<Rightarrow> 0 | Some p \<Rightarrow> p))) (of_int 0) ?app =
        of_int 0 + sum_list (map progressOf ?app)"
    by (rule foldl_toDouble_exact [OF all _ bound]) simp
  then have sum: "foldl (\<lambda>acc t. toDouble (acc + (case progress t of None \<Rightarrow> 0 | Some p \<Rightarrow> p))) 0 ?app = of_int b"
    using b(1) by simp
  have "computeDaoProgress dao = Math_round (toDouble (of_int b / of_nat ?n))"
    using False by (simp add: computeDaoProgress_def Let_def sum)
  also have "\<dots> = \<lfloor>(of_int b / of_nat ?n :: rat) + 1 / 2\<rfloor>"
    by (rule Math_round_toDouble_div [OF b(2,3) n0 assms(2)])
  also have "\<dots> = spec_progress (case tasks dao of None \<Rightarrow> [] | Some ts \<Rightarrow> ts)"
    using False by (simp add: spec_progress_def spec_mean_def Let_def round_def b(1))
  finally show ?thesis .
qed

lemma computeDaoProgress_example: "computeDaoProgress \<lparr>tasks = Some [\<lparr>isApplicable = True, progress = Some 10\<rparr>,
             \<lparr>isApplicable = True, progress = Some 30\<rparr>,
             \<lparr>isApplicable = False, progress = Some 100\<rparr>]\<rparr> = 20"
  by code_simp

text \<open>
  Claim C5 as stated, for every record, fails on fractional progress, which the task
  routes accept: for the applicable progress values 6.1, 80, 18.8 and 13.1 the mean is
  exactly 59/2, which rounds to 30, while the sum of doubles is 117.99999999999999, its
  quarter 29.499999999999996, and \<open>computeDaoProgress\<close> returns 29.
\<close>

theorem computeDaoProgress_fractional_counterexample:
  "computeDaoProgress fractional_dao = 29 \<and>
   spec_mean (map progressOf (filter isApplicable (case tasks fractional_dao of None \<Rightarrow> [] | Some ts \<Rightarrow> ts))) = 59 / 2 \<and>
   spec_progress (case tasks fractional_dao of None \<Rightarrow> [] | Some ts \<Rightarrow> ts) = 30 \<and>
   map progressOf (case tasks fractional_dao of None \<Rightarrow> [] | Some ts \<Rightarrow> ts) =
     [3433994715870003 / 562949953421312, 80, 5291729562160333 / 281474976710656,
      7374644389819187 / 562949953421312]"
  by code_simp

text \<open>
  Claim C5, amended. For every record whose applicable tasks carry whole percentages (a
  progress that is missing or an integer from 0 to 100) and are fewer than \<open>2^32\<close> (the
  bound of a JavaScript array), \<open>computeDaoProgress\<close> is the specification's rounded
  mean: 0 when no task is applicable; otherwise the mean of the progress values of the
  applicable tasks (a missing value counts 0), rounded to the nearest integer, so at most
  one half away from the mean (a tie goes up). For the tasks
  (applicable, 10), (applicable, 30), (not applicable, 100) it is 20. The sum and the
  quotient are those of double arithmetic: on whole percentages the sum is exact and the
  rounding of the quotient never moves it across a half.
\<close>

theorem computeDaoProgress_rounded_mean:
  assumes "list_all integerPercent (filter isApplicable (case tasks dao of None \<Rightarrow> [] | Some ts \<Rightarrow> ts))"
    and "length (filter isApplicable (case tasks dao of None \<Rightarrow> [] | Some ts \<Rightarrow> ts)) < 2 ^ 32"
  shows "computeDaoProgress dao = spec_progress (case tasks dao of None \<Rightarrow> [] | Some ts \<Rightarrow> ts) \<and>
   (filter isApplicable (case tasks dao of None \<Rightarrow> [] | Some ts \<Rightarrow> ts) = [] \<longrightarrow>
      computeDaoProgress dao = 0) \<and>
   (filter isApplicable (case tasks dao of None \<Rightarrow> [] | Some ts \<Rightarrow> ts) \<noteq> [] \<longrightarrow>
      computeDaoProgress dao =
        \<lfloor>spec_mean (map progressOf (filter isApplicable (case tasks dao of None \<Rightarrow> [] | Some ts \<Rightarrow> ts))) + 1 / 2\<rfloor> \<and>
      \<bar>of_int (computeDaoProgress dao) -
        spec_mean (map progressOf (filter isApplicable (case tasks dao of None \<Rightarrow> [] | Some ts \<Rightarrow> ts)))\<bar> \<le> 1 / 2) \<and>
   computeDaoProgress \<lparr>tasks = Some [\<lparr>isApplicable = True, progress = Some 10\<rparr>,
             \<lparr>isApplicable = True, progress = Some 30\<rparr>,
             \<lparr>isApplicable = False, progress = Some 100\<rparr>]\<rparr> = 20"
proof -
  let ?ts = "case tasks dao of None \<Rightarrow> [] | Some ts \<Rightarrow> ts"
  let ?ps = "map progressOf (filter isApplicable ?ts)"
  have a: "computeDaoProgress dao = spec_progress ?ts"
    by (rule computeDaoProgress_spec [OF assms])
  have b: "filter isApplicable ?ts = [] \<longrightarrow> computeDaoProgress dao = 0"
    by (simp add: a spec_progress_def)
  have c: "filter isApplicable ?ts \<noteq> [] \<longrightarrow> computeDaoProgress dao = \<lfloor>spec_mean ?ps + 1 / 2\<rfloor>"
    by (simp add: a spec_progress_def Let_def round_def)
  have d: "filter isApplicable ?ts \<noteq> [] \<longrightarrow>
      \<bar>of_int (computeDaoProgress dao) - spec_mean ?ps\<bar> \<le> 1 / 2"
    using of_int_round_abs_le [of "spec_mean ?ps"]
    by (simp add: a spec_progress_def Let_def)
  show ?thesis using a b c d computeDaoProgress_example by blast
qed


theorem computeDaoProgress_rounded_mean_witness:
  "list_all integerPercent (filter isApplicable (case tasks example_dao of None \<Rightarrow> [] | Some ts \<Rightarrow> ts)) \<and>
   length (filter isApplicable (case tasks example_dao of None \<Rightarrow> [] | Some ts \<Rightarrow> ts)) < 2 ^ 32 \<and>
   filter isApplicable (case tasks example_dao of None \<Rightarrow> [] | Some ts \<Rightarrow> ts) \<noteq> [] \<and>
   spec_mean (map progressOf
     (filter isApplicable (case tasks example_dao of None \<Rightarrow> [] | Some ts \<Rightarrow> ts))) = 20 \<and>
   computeDaoProgress example_dao = 20 \<and>
   list_all integerPercent (filter isApplicable (case tasks \<lparr>tasks = None\<rparr> of None \<Rightarrow> [] | Some ts \<Rightarrow> ts)) \<and>
   filter isApplicable (case tasks \<lparr>tasks = None\<rparr> of None \<Rightarrow> [] | Some ts \<Rightarrow> ts) = [] \<and>
   computeDaoProgress \<lparr>tasks = None\<rparr> = 0"
proof -
  have ip: "list_all integerPercent (filter isApplicable (case tasks example_dao of None \<Rightarrow> [] | Some ts \<Rightarrow> ts))"
    by (simp add: example_dao_def integerPercent_def)
  have len: "length (filter isApplicable (case tasks example_dao of None \<Rightarrow> [] | Some ts \<Rightarrow> ts)) < 2 ^ 32"
    by (simp add: example_dao_def)
  have ne: "filter isApplicable (case tasks example_dao of None \<Rightarrow> [] | Some ts \<Rightarrow> ts) \<noteq> []"
    by (simp add: example_dao_def)
  have mean: "spec_mean (map progressOf
     (filter isApplicable (case tasks example_dao of None \<Rightarrow> [] | Some ts \<Rightarrow> ts))) = 20"
    by (simp add: example_dao_def spec_mean_def progressOf_def)
  have ip0: "list_all integerPercent (filter isApplicable (case tasks \<lparr>tasks = None\<rparr> of None \<Rightarrow> [] | Some ts \<Rightarrow> ts))"
    by simp
  have len0: "length (filter isApplicable (case tasks \<lparr>tasks = None\<rparr> of None \<Rightarrow> [] | Some ts \<Rightarrow> ts)) < 2 ^ 32"
    by simp
  have e: "filter isApplicable (case tasks \<lparr>tasks = None\<rparr> of None \<Rightarrow> [] | Some ts \<Rightarrow> ts) = []"
    by simp
  from computeDaoProgress_rounded_mean [OF ip len] ne mean
  have "computeDaoProgress example_dao = \<lfloor>(20::rat) + 1 / 2\<rfloor>" by simp
  moreover have "\<lfloor>(20::rat) + 1 / 2\<rfloor> = 20" by linarith
  moreover from computeDaoProgress_rounded_mean [OF ip0 len0] e
  have "computeDaoProgress \<lparr>tasks = None\<rparr> = 0" by blast
  ultimately show ?thesis using ip len ne mean ip0 e by simp
qed

section \<open>Verification: the cooldown of email error notifications\<close>

lemma mirrorEmail_catch_emits:
  "(fst (mirrorEmail_catch I b now newId nowIso err sv) = None) =
   (\<not> fst (shouldNotifyEmailError I now (orElse (es_code err) ''unknown'') (cooldown sv)))"
  by (simp add: mirrorEmail_catch_def Let_def split_beta)

lemma mirrorEmail_catch_cooldown:
  "cooldown (snd (mirrorEmail_catch I b now newId nowIso err sv)) =
   snd (shouldNotifyEmailError I now (orElse (es_code err) ''unknown'') (cooldown sv))"
  by (simp add: mirrorEmail_catch_def Let_def split_beta)

lemma mirrorFailures_append:
  "mirrorFailures I b (xs @ ys) sv =
     (fst (mirrorFailures I b xs sv) @ fst (mirrorFailures I b ys (snd (mirrorFailures I b xs sv))),
      snd (mirrorFailures I b ys (snd (mirrorFailures I b xs sv))))"
  by (induction xs arbitrary: sv) (simp_all add: split_beta Let_def)

lemma mirrorFailures_length: "length (fst (mirrorFailures I b fs sv)) = length fs"
  by (induction fs arbitrary: sv) (simp_all add: split_beta Let_def)

lemma mirrorFailures_same_code:
  assumes "0 \<le> I"
    and "lastEmailErrorNotificationCode (cooldown sv) = Some code"
    and "T \<le> lastEmailErrorNotificationAt (cooldown sv)"
    and "\<forall>f \<in> set fs. orElse (es_code (f_error f)) ''unknown'' = code"
  shows "lastEmailErrorNotificationCode (cooldown (snd (mirrorFailures I b fs sv))) = Some code \<and>
         T \<le> lastEmailErrorNotificationAt (cooldown (snd (mirrorFailures I b fs sv)))"
  using assms
proof (induction fs arbitrary: sv)
  case Nil
  then show ?case by simp
next
  case (Cons f fs)
  let ?sv1 = "snd (mirrorEmail_catch I b (f_nowMs f) (f_newId f) (f_nowIso f) (f_error f) sv)"
  have c: "orElse (es_code (f_error f)) ''unknown'' = code" using Cons.prems(4) by simp
  have "lastEmailErrorNotificationCode (cooldown ?sv1) = Some code \<and>
        T \<le> lastEmailErrorNotificationAt (cooldown ?sv1)"
    using Cons.prems(1,2,3) c
    by (auto simp: mirrorEmail_catch_cooldown shouldNotifyEmailError_def)
  then have "lastEmailErrorNotificationCode (cooldown (snd (mirrorFailures I b fs ?sv1))) = Some code \<and>
         T \<le> lastEmailErrorNotificationAt (cooldown (snd (mirrorFailures I b fs ?sv1)))"
    using Cons.IH [of ?sv1] Cons.prems(1,4) by simp
  then show ?case by (simp add: split_beta Let_def)
qed

lemma interval_pos: "0 \<le> EMAIL_ERROR_NOTIFY_INTERVAL_MS configured"
  by (simp add: EMAIL_ERROR_NOTIFY_INTERVAL_MS_def)

text \<open>
  Claim C3, amended. The cooldown remembers one code only, the code of the last system
  notification emitted. So: among failures that all carry the same code, with no failure
  of another code between them, two failures less than the interval apart never both
  produce a system notification; and a failure whose code is not the remembered one
  always produces a notification (and takes over the window).
\<close>

theorem cooldown_within_same_code_run:
  assumes codes: "\<forall>f \<in> set (fi # mid @ [fj]). orElse (es_code (f_error f)) ''unknown'' = code"
    and near: "f_nowMs fj - f_nowMs fi < EMAIL_ERROR_NOTIFY_INTERVAL_MS configured"
  shows "\<not> (emitted (fst (mirrorFailures (EMAIL_ERROR_NOTIFY_INTERVAL_MS configured) b
                  (pre @ fi # mid @ fj # post) sv)) ! length pre \<and>
            emitted (fst (mirrorFailures (EMAIL_ERROR_NOTIFY_INTERVAL_MS configured) b
                  (pre @ fi # mid @ fj # post) sv)) ! (length pre + 1 + length mid)) \<and>
         (lastEmailErrorNotificationCode (cooldown sv) \<noteq> Some (orElse (es_code err) ''unknown'') \<longrightarrow>
            fst (mirrorEmail_catch (EMAIL_ERROR_NOTIFY_INTERVAL_MS configured) b nowMs newId nowIso err sv)
              \<noteq> None)"
proof
  let ?I = "EMAIL_ERROR_NOTIFY_INTERVAL_MS configured"
  let ?run = "mirrorFailures ?I b"
  let ?sv0 = "snd (?run pre sv)"
  let ?one = "mirrorEmail_catch ?I b (f_nowMs fi) (f_newId fi) (f_nowIso fi) (f_error fi) ?sv0"
  let ?sv1 = "snd ?one"
  let ?sv2 = "snd (?run mid ?sv1)"
  let ?two = "mirrorEmail_catch ?I b (f_nowMs fj) (f_newId fj) (f_nowIso fj) (f_error fj) ?sv2"
  have out: "fst (?run (pre @ fi # mid @ fj # post) sv) =
      fst (?run pre sv) @ fst ?one # fst (?run mid ?sv1) @ fst ?two # fst (?run post (snd ?two))"
    by (simp add: mirrorFailures_append split_beta Let_def)
  have first: "emitted (fst (?run (pre @ fi # mid @ fj # post) sv)) ! length pre = (fst ?one \<noteq> None)"
    by (simp add: out emitted_def nth_append mirrorFailures_length)
  have second: "emitted (fst (?run (pre @ fi # mid @ fj # post) sv)) ! (length pre + 1 + length mid)
      = (fst ?two \<noteq> None)"
    by (simp add: out emitted_def nth_append mirrorFailures_length)
  have ci: "orElse (es_code (f_error fi)) ''unknown'' = code"
    and cj: "orElse (es_code (f_error fj)) ''unknown'' = code"
    and cm: "\<forall>f \<in> set mid. orElse (es_code (f_error f)) ''unknown'' = code"
    using codes by auto
  have "\<not> (fst ?one \<noteq> None \<and> fst ?two \<noteq> None)"
  proof
    assume both: "fst ?one \<noteq> None \<and> fst ?two \<noteq> None"
    then have "fst (shouldNotifyEmailError ?I (f_nowMs fi) code (cooldown ?sv0))"
      using ci by (simp add: mirrorEmail_catch_emits)
    then have s1: "lastEmailErrorNotificationCode (cooldown ?sv1) = Some code \<and>
        f_nowMs fi \<le> lastEmailErrorNotificationAt (cooldown ?sv1)"
      using ci by (auto simp: mirrorEmail_catch_cooldown shouldNotifyEmailError_def split: if_splits)
    have s2: "lastEmailErrorNotificationCode (cooldown ?sv2) = Some code \<and>
        f_nowMs fi \<le> lastEmailErrorNotificationAt (cooldown ?sv2)"
      using mirrorFailures_same_code [OF interval_pos _ _ cm, of ?sv1 "f_nowMs fi" configured b] s1
      by blast
    have "\<not> fst (shouldNotifyEmailError ?I (f_nowMs fj) code (cooldown ?sv2))"
      using s2 near by (simp add: shouldNotifyEmailError_def)
    then show False using both cj by (simp add: mirrorEmail_catch_emits)
  qed
  then show "\<not> (emitted (fst (?run (pre @ fi # mid @ fj # post) sv)) ! length pre \<and>
            emitted (fst (?run (pre @ fi # mid @ fj # post) sv)) ! (length pre + 1 + length mid))"
    using first second by simp
next
  show "lastEmailErrorNotificationCode (cooldown sv) \<noteq> Some (orElse (es_code err) ''unknown'') \<longrightarrow>
            fst (mirrorEmail_catch (EMAIL_ERROR_NOTIFY_INTERVAL_MS configured) b nowMs newId nowIso err sv)
              \<noteq> None"
    by (simp add: mirrorEmail_catch_emits shouldNotifyEmailError_def)
qed

text \<open>
  Claim C3 as stated fails: with the default interval of ten minutes, a failure with code
  554, one with code ETIMEDOUT a second later and one with code 554 a second after that
  produce three system notifications, two of them for code 554 within two seconds.
\<close>

theorem cooldown_per_code_counterexample:
  "orElse (es_code (f_error (failureAt ''554'' 1000000))) ''unknown'' =
     orElse (es_code (f_error (failureAt ''554'' 1002000))) ''unknown'' \<and>
   f_nowMs (failureAt ''554'' 1002000) - f_nowMs (failureAt ''554'' 1000000)
     < EMAIL_ERROR_NOTIFY_INTERVAL_MS None \<and>
   emitted (fst (mirrorFailures (EMAIL_ERROR_NOTIFY_INTERVAL_MS None) False
      [failureAt ''554'' 1000000, failureAt ''ETIMEDOUT'' 1001000, failureAt ''554'' 1002000]
      emptyService)) = [True, True, True]"
  by code_simp

theorem cooldown_within_same_code_run_witness:
  "orElse (es_code (f_error (failureAt ''554'' 1000000))) ''unknown'' = ''554'' \<and>
   f_nowMs (failureAt ''554'' 1002000) - f_nowMs (failureAt ''554'' 1000000)
     < EMAIL_ERROR_NOTIFY_INTERVAL_MS None \<and>
   emitted (fst (mirrorFailures (EMAIL_ERROR_NOTIFY_INTERVAL_MS None) False
      [failureAt ''554'' 1000000, failureAt ''554'' 1001000, failureAt ''554'' 1002000]
      emptyService)) = [True, False, False] \<and>
   \<not> (emitted (fst (mirrorFailures (EMAIL_ERROR_NOTIFY_INTERVAL_MS None) False
      ([] @ failureAt ''554'' 1000000 # [failureAt ''554'' 1001000] @ failureAt ''554'' 1002000 # [])
      emptyService)) ! length ([] :: MirrorFailure list) \<and>
      emitted (fst (mirrorFailures (EMAIL_ERROR_NOTIFY_INTERVAL_MS None) False
      ([] @ failureAt ''554'' 1000000 # [failureAt ''554'' 1001000] @ failureAt ''554'' 1002000 # [])
      emptyService)) ! (length ([] :: MirrorFailure list) + 1 + length [failureAt ''554'' 1001000]))"
proof -
  have codes: "\<forall>f \<in> set (failureAt ''554'' 1000000 # [failureAt ''554'' 1001000] @ [failureAt ''554'' 1002000]).
      orElse (es_code (f_error f)) ''unknown'' = ''554''"
    by (simp add: failureAt_def orElse_def present_def)
  have near: "f_nowMs (failureAt ''554'' 1002000) - f_nowMs (failureAt ''554'' 1000000)
     < EMAIL_ERROR_NOTIFY_INTERVAL_MS None"
    by (simp add: failureAt_def EMAIL_ERROR_NOTIFY_INTERVAL_MS_def)
  have run: "emitted (fst (mirrorFailures (EMAIL_ERROR_NOTIFY_INTERVAL_MS None) False
      [failureAt ''554'' 1000000, failureAt ''554'' 1001000, failureAt ''554'' 1002000]
      emptyService)) = [True, False, False]"
    by code_simp
  have c1: "orElse (es_code (f_error (failureAt ''554'' 1000000))) ''unknown'' = ''554''"
    by (simp add: failureAt_def orElse_def present_def)
  from cooldown_within_same_code_run [OF codes near, of False "[]" "[]" emptyService]
  show ?thesis using c1 near run by blast
qed

section \<open>Verification: the delivery engine\<close>


lemma batch_length:
  "i < length rs \<Longrightarrow>
   length (take (min (BATCH_SIZE env) (length rs - i)) (drop i rs)) = min (BATCH_SIZE env) (length rs - i)"
  by simp

lemma pushEvent_fields [simp]:
  "emailQueue (pushEvent ev s) = emailQueue s"
  "persistedQueue (pushEvent ev s) = persistedQueue s"
  "isProcessingQueue (pushEvent ev s) = isProcessingQueue s"
  "totalSent (pushEvent ev s) = totalSent s"
  "totalFailed (pushEvent ev s) = totalFailed s"
  "lastTransportError (pushEvent ev s) = lastTransportError s"
  "sendMailCalls (pushEvent ev s) = sendMailCalls s"
  "uuidCount (pushEvent ev s) = uuidCount s"
  by (simp_all add: pushEvent_def Let_def)






lemma processRounds_unfold:
  "queue \<noteq> [] \<Longrightarrow>
   processRounds fuel env queue s =
     (case runJobs fuel env (take (MAX_CONCURRENT env) queue)
             (s\<lparr>emailQueue := drop (MAX_CONCURRENT env) queue\<rparr>) of
        None \<Rightarrow> None
      | Some (settled, s1) \<Rightarrow>
          (case processRounds fuel env (drop (MAX_CONCURRENT env) queue) s1 of
             None \<Rightarrow> None
           | Some (rest, s2) \<Rightarrow> Some (settled @ rest, s2)))"
  by (subst processRounds.simps) simp

lemma processRounds_Nil: "processRounds fuel env [] s = Some ([], s)"
  by (subst processRounds.simps) simp



lemma enqueueJob_queue:
  "emailQueue (enqueueJob env rs subj body type s) =
     emailQueue s @ [\<lparr>job_id = randomUUID env (uuidCount s), job_recipients = rs,
                      job_subject = subj, job_body = body, job_type = type\<rparr>]"
  "persistedQueue (enqueueJob env rs subj body type s) =
     persistedQueue s @ [\<lparr>sj_id = randomUUID env (uuidCount s), sj_recipients = rs,
                          sj_subject = subj, sj_body = body, sj_type = type,
                          enqueuedAt = clock env (uuidCount s)\<rparr>]"
  "isProcessingQueue (enqueueJob env rs subj body type s) = isProcessingQueue s"
  by (simp_all add: enqueueJob_def addPersistedJob_def Let_def)


lemma sendEmail_nonempty:
  "validRecipients to \<noteq> [] \<Longrightarrow>
   sendEmail fuel env to subj body type s =
     (case enqueueEmailJob fuel env (validRecipients to) (smtpSubjectOf subj) body type s of
        None \<Rightarrow> None
      | Some (Inr summary1, s1) \<Rightarrow>
          (if failed summary1 = 0 then Some (Inr (), s1)
           else if sent summary1 = 0
           then (case errors summary1 of
                   [] \<Rightarrow> Some (Inl \<lparr>es_message = ''SMTP send failed'', es_code = None,
                                    permanent = False, summary = Some summary1\<rparr>, s1)
                 | firstError # _ \<Rightarrow>
                     Some (Inl \<lparr>es_message =
                                  (if bf_message firstError \<noteq> [] then bf_message firstError
                                   else ''SMTP send failed''),
                                es_code = Some (bf_code firstError),
                                permanent = (bf_code firstError = ''transport_unavailable''),
                                summary = Some summary1\<rparr>, s1))
           else Some (Inr (), s1))
      | Some (Inl err, s1) \<Rightarrow>
          (if summary err = None
           then Some (Inl (err\<lparr>summary :=
                        Some \<lparr>subject = smtpSubjectOf subj,
                              attempted = length (validRecipients to),
                              sent = 0, failed = length (validRecipients to), errors = []\<rparr>\<rparr>), s1)
           else Some (Inl err, s1)))"
  by (simp add: sendEmail_def Let_def)


text \<open>
  Claim C2 at its own scenario: one recipient, one batch, a transport that times out
  (\<open>ETIMEDOUT\<close>, a temporary code) on the first invocation and succeeds afterwards.
  \<open>deliverEmailJob\<close> invokes \<open>sendMail\<close> twice, and then throws: the batch that was sent
  at the second invocation stays counted as failed (\<open>sent = 1\<close>, \<open>failed = 1\<close> for one
  recipient). With the default three attempts per job, the job is then delivered again:
  \<open>sendEmail\<close> returns after three invocations of \<open>sendMail\<close>. With one attempt per job
  it throws.
\<close>

theorem deliverEmailJob_retry_evaluation:
  "map_option fst (deliverEmailJob 10 (example_env timeoutOnce) [''a@x.com''] ''Sujet'' ''Contenu''
      None idleEngine) =
     Some (Inl \<lparr>es_message = ''Connection timeout'', es_code = Some ''ETIMEDOUT'',
        permanent = False,
        summary = Some \<lparr>subject = ''Sujet'', attempted = 1, sent = 1, failed = 1,
          errors = [\<lparr>bf_code = ''ETIMEDOUT'', bf_message = ''Connection timeout'',
                     bf_recipients = [''a@x.com'']\<rparr>]\<rparr>\<rparr>) \<and>
   map_option (sendMailCalls \<circ> snd) (deliverEmailJob 10 (example_env timeoutOnce) [''a@x.com'']
      ''Sujet'' ''Contenu'' None idleEngine) =
     Some [(''smtp.example.com'', [''a@x.com'']), (''smtp.example.com'', [''a@x.com''])] \<and>
   map_option fst (sendEmail 10 (example_env timeoutOnce) (One (Str ''a@x.com'')) ''Sujet''
      ''Contenu'' None idleEngine) = Some (Inr ()) \<and>
   map_option (sendMailCalls \<circ> snd) (sendEmail 10 (example_env timeoutOnce) (One (Str ''a@x.com''))
      ''Sujet'' ''Contenu'' None idleEngine) =
     Some [(''smtp.example.com'', [''a@x.com'']), (''smtp.example.com'', [''a@x.com'']),
           (''smtp.example.com'', [''a@x.com''])] \<and>
   map_option fst (sendEmail 10 ((example_env timeoutOnce)\<lparr>SMTP_MAX_RETRY := 1\<rparr>)
      (One (Str ''a@x.com'')) ''Sujet'' ''Contenu'' None idleEngine) =
     Some (Inl \<lparr>es_message = ''Connection timeout'', es_code = Some ''ETIMEDOUT'',
        permanent = False,
        summary = Some \<lparr>subject = ''Sujet'', attempted = 1, sent = 1, failed = 1,
          errors = [\<lparr>bf_code = ''ETIMEDOUT'', bf_message = ''Connection timeout'',
                     bf_recipients = [''a@x.com'']\<rparr>]\<rparr>\<rparr>)"
  by code_simp

lemma dedupe_set: "set (dedupe seen xs) = set xs - set seen"
  by (induction xs arbitrary: seen) auto

lemma dedupe_distinct: "distinct (dedupe seen xs)"
  by (induction xs arbitrary: seen) (auto simp: dedupe_set)

lemma unique_set: "set (unique xs) = set xs"
  by (simp add: unique_def dedupe_set)

lemma unique_distinct: "distinct (unique xs)"
  by (simp add: unique_def dedupe_distinct)

lemma partitionStep_valid_origin:
  "n \<in> set (valid (partitionStep acc v)) \<Longrightarrow>
   n \<in> set (valid acc) \<or> (normalizeEmail v = Some n \<and> EMAIL_REGEX_test n)"
  by (auto simp: partitionStep_def split: option.splits if_splits)

lemma foldl_partition_valid_origin:
  "n \<in> set (valid (foldl partitionStep acc xs)) \<Longrightarrow>
   n \<in> set (valid acc) \<or> (\<exists>v \<in> set xs. normalizeEmail v = Some n \<and> EMAIL_REGEX_test n)"
proof (induction xs arbitrary: acc)
  case Nil
  then show ?case by simp
next
  case (Cons x xs)
  from Cons.IH [of "partitionStep acc x"] Cons.prems
  consider "n \<in> set (valid (partitionStep acc x))"
    | "\<exists>v \<in> set xs. normalizeEmail v = Some n \<and> EMAIL_REGEX_test n"
    by auto
  then show ?case
  proof cases
    case 1
    then show ?thesis using partitionStep_valid_origin [of n acc x] by auto
  next
    case 2
    then show ?thesis by auto
  qed
qed

lemma validRecipients_origin:
  "r \<in> set (validRecipients to) \<Longrightarrow>
   EMAIL_REGEX_test r \<and> (\<exists>v \<in> set (toArray to). normalizeEmail v = Some r)"
  using foldl_partition_valid_origin [of r "\<lparr>valid = [], invalid = []\<rparr>" "toArray to"]
  by (auto simp: validRecipients_def unique_set partitionEmails_def)

text \<open>
  Claim C8. For every call of \<open>sendEmail\<close>: the recipients it keeps are distinct, each
  matches the address grammar and is the normalized form of an input; when none is left
  the call returns without an error and leaves the engine's state as it is (nothing is
  added to the queue or to the persisted queue); when some are left, the job that is
  enqueued and persisted carries exactly these recipients, and the call ends in the state
  in which the promise of that job is settled.
\<close>

theorem sendEmail_filters_before_enqueue:
  "(\<forall>r \<in> set (validRecipients to).
      EMAIL_REGEX_test r \<and> (\<exists>v \<in> set (toArray to). normalizeEmail v = Some r)) \<and>
   distinct (validRecipients to) \<and>
   (validRecipients to = [] \<longrightarrow>
      sendEmail fuel env to subj body type s = Some (Inr (), s)) \<and>
   (validRecipients to \<noteq> [] \<longrightarrow>
      job_recipients (last (emailQueue
        (enqueueJob env (validRecipients to) (smtpSubjectOf subj) body type s)))
        = validRecipients to \<and>
      sj_recipients (last (persistedQueue
        (enqueueJob env (validRecipients to) (smtpSubjectOf subj) body type s)))
        = validRecipients to \<and>
      (sendEmail fuel env to subj body type s = None) =
        (enqueueEmailJob fuel env (validRecipients to) (smtpSubjectOf subj) body type s = None) \<and>
      map_option snd (sendEmail fuel env to subj body type s) =
        map_option snd
          (enqueueEmailJob fuel env (validRecipients to) (smtpSubjectOf subj) body type s))"
proof -
  have a: "\<forall>r \<in> set (validRecipients to).
      EMAIL_REGEX_test r \<and> (\<exists>v \<in> set (toArray to). normalizeEmail v = Some r)"
    using validRecipients_origin by blast
  have b: "distinct (validRecipients to)"
    by (simp add: validRecipients_def unique_distinct)
  have c: "validRecipients to = [] \<longrightarrow>
      sendEmail fuel env to subj body type s = Some (Inr (), s)"
    by (simp add: sendEmail_def)
  have d1: "job_recipients (last (emailQueue
        (enqueueJob env (validRecipients to) (smtpSubjectOf subj) body type s)))
        = validRecipients to"
    by (simp add: enqueueJob_queue)
  have d2: "sj_recipients (last (persistedQueue
        (enqueueJob env (validRecipients to) (smtpSubjectOf subj) body type s)))
        = validRecipients to"
    by (simp add: enqueueJob_queue)
  have d3: "(sendEmail fuel env to subj body type s = None) =
        (enqueueEmailJob fuel env (validRecipients to) (smtpSubjectOf subj) body type s = None)"
    if ne: "validRecipients to \<noteq> []"
    unfolding sendEmail_nonempty [OF ne]
    by (auto split: option.splits prod.splits sum.splits list.splits)
  have d4: "map_option snd (sendEmail fuel env to subj body type s) =
        map_option snd
          (enqueueEmailJob fuel env (validRecipients to) (smtpSubjectOf subj) body type s)"
    if ne: "validRecipients to \<noteq> []"
    unfolding sendEmail_nonempty [OF ne]
    by (auto split: option.splits prod.splits sum.splits list.splits)
  show ?thesis using a b c d1 d2 d3 d4 by blast
qed

theorem sendEmail_filters_before_enqueue_witness:
  "validRecipients (Many [Str ''nope'', Null, Str '' '']) = [] \<and>
   sendEmail 10 (example_env timeoutOnce) (Many [Str ''nope'', Null, Str '' '']) ''Sujet''
     ''Contenu'' None idleEngine = Some (Inr (), idleEngine) \<and>
   validRecipients (Many [Str ''a@x.com'', Str ''nope'', Str ''A@x.com '', Str ''b@x.com''])
     = [''a@x.com'', ''b@x.com''] \<and>
   ''b@x.com'' \<in> set (validRecipients
      (Many [Str ''a@x.com'', Str ''nope'', Str ''A@x.com '', Str ''b@x.com''])) \<and>
   EMAIL_REGEX_test ''b@x.com'' \<and>
   job_recipients (last (emailQueue
        (enqueueJob (example_env timeoutOnce)
           (validRecipients (Many [Str ''a@x.com'', Str ''nope'', Str ''A@x.com '', Str ''b@x.com'']))
           (smtpSubjectOf ''Sujet'') ''Contenu'' None idleEngine)))
     = [''a@x.com'', ''b@x.com'']"
proof -
  let ?bad = "Many [Str ''nope'', Null, Str '' '']"
  let ?to = "Many [Str ''a@x.com'', Str ''nope'', Str ''A@x.com '', Str ''b@x.com'']"
  have e: "validRecipients ?bad = []" by code_simp
  have v: "validRecipients ?to = [''a@x.com'', ''b@x.com'']" by code_simp
  then have m: "''b@x.com'' \<in> set (validRecipients ?to)" and ne: "validRecipients ?to \<noteq> []"
    by simp_all
  note a = sendEmail_filters_before_enqueue [of ?bad 10 "example_env timeoutOnce" "''Sujet''"
      "''Contenu''" None idleEngine]
  note b = sendEmail_filters_before_enqueue [of ?to 10 "example_env timeoutOnce" "''Sujet''"
      "''Contenu''" None idleEngine]
  have 1: "sendEmail 10 (example_env timeoutOnce) ?bad ''Sujet'' ''Contenu'' None idleEngine
      = Some (Inr (), idleEngine)"
    using a e by blast
  have 2: "EMAIL_REGEX_test ''b@x.com''" using b m by blast
  have 3: "job_recipients (last (emailQueue
        (enqueueJob (example_env timeoutOnce) (validRecipients ?to)
           (smtpSubjectOf ''Sujet'') ''Contenu'' None idleEngine))) = validRecipients ?to"
    using b ne by blast
  show ?thesis using e v m 1 2 3 by simp
qed

lemma getTransport_fields [simp]:
  "emailQueue (snd (getTransport env ex s)) = emailQueue s"
  "persistedQueue (snd (getTransport env ex s)) = persistedQueue s"
  "isProcessingQueue (snd (getTransport env ex s)) = isProcessingQueue s"
  "totalSent (snd (getTransport env ex s)) = totalSent s"
  "totalFailed (snd (getTransport env ex s)) = totalFailed s"
  "emailEvents (snd (getTransport env ex s)) = emailEvents s"
  "sendMailCalls (snd (getTransport env ex s)) = sendMailCalls s"
  "uuidCount (snd (getTransport env ex s)) = uuidCount s"
  by (simp_all add: getTransport_def split_beta)

lemma getTransport_found_indep:
  "fst (getTransport env ex s) = fst (getTransport env ex s')"
  by (simp add: getTransport_def split_beta)

lemma deliverEmailJob_no_transport:
  assumes "\<not> dryRun env" and "fst (getTransport env [] s) = None"
  shows "\<exists>e s1. deliverEmailJob fuel env rs subj body type s = Some (Inl e, s1) \<and>
           permanent e \<and> es_code e = None \<and>
           summary e = Some \<lparr>subject = subj, attempted = length rs, sent = 0, failed = length rs,
              errors = [\<lparr>bf_code = ''transport_unavailable'', bf_message = es_message e,
                         bf_recipients = rs\<rparr>]\<rparr> \<and>
           emailQueue s1 = emailQueue s \<and> persistedQueue s1 = persistedQueue s \<and>
           isProcessingQueue s1 = isProcessingQueue s \<and>
           sendMailCalls s1 = sendMailCalls s \<and> totalSent s1 = totalSent s \<and>
           totalFailed s1 = totalFailed s + length rs \<and> uuidCount s1 = uuidCount s"
  using assms by (simp add: deliverEmailJob_def Let_def)

lemma removePersistedJob_fields [simp]:
  "emailQueue (removePersistedJob jid s) = emailQueue s"
  "isProcessingQueue (removePersistedJob jid s) = isProcessingQueue s"
  "totalSent (removePersistedJob jid s) = totalSent s"
  "totalFailed (removePersistedJob jid s) = totalFailed s"
  "sendMailCalls (removePersistedJob jid s) = sendMailCalls s"
  "uuidCount (removePersistedJob jid s) = uuidCount s"
  "persistedQueue (removePersistedJob jid s) = removeFirstId jid (persistedQueue s)"
  by (simp_all add: removePersistedJob_def)

lemma MAX_CONCURRENT_pos: "0 < MAX_CONCURRENT env"
  by (simp add: MAX_CONCURRENT_def)

lemma take_singleton: "0 < n \<Longrightarrow> take n [x] = [x] \<and> drop n [x] = []"
  by (cases n) simp_all

text \<open>
  Claim C4, amended. For every call of \<open>sendEmail\<close> with at least one valid recipient,
  outside dry-run mode, on an engine at rest (empty queue, no drainer running), when
  \<open>getTransport\<close> resolves no transport: the job is first pushed on the queue and added
  to the persisted queue; the drainer then runs it and settles it with a permanent error
  (no code, a summary with \<open>sent = 0\<close>, \<open>failed = attempted\<close> and the one batch error
  \<open>transport_unavailable\<close>), which the call throws; no \<open>sendMail\<close> is invoked, the job
  is attempted once (the failed counter grows by the number of recipients), and it is
  gone from the queue and from the persisted queue afterwards. This holds whatever the
  fuel: the batch loop is never entered.
\<close>

theorem sendEmail_no_transport:
  assumes valid: "validRecipients to \<noteq> []"
    and nodry: "\<not> dryRun env"
    and none: "fst (getTransport env [] s) = None"
    and idle: "emailQueue s = []" "\<not> isProcessingQueue s"
  shows "\<exists>e s'.
     sendEmail fuel env to subj body type s = Some (Inl e, s') \<and>
     permanent e \<and> es_code e = None \<and>
     summary e = Some \<lparr>subject = smtpSubjectOf subj, attempted = length (validRecipients to),
        sent = 0, failed = length (validRecipients to),
        errors = [\<lparr>bf_code = ''transport_unavailable'', bf_message = es_message e,
                   bf_recipients = validRecipients to\<rparr>]\<rparr> \<and>
     emailQueue (enqueueJob env (validRecipients to) (smtpSubjectOf subj) body type s) =
       [\<lparr>job_id = randomUUID env (uuidCount s), job_recipients = validRecipients to,
         job_subject = smtpSubjectOf subj, job_body = body, job_type = type\<rparr>] \<and>
     persistedQueue (enqueueJob env (validRecipients to) (smtpSubjectOf subj) body type s) =
       persistedQueue s @
       [\<lparr>sj_id = randomUUID env (uuidCount s), sj_recipients = validRecipients to,
         sj_subject = smtpSubjectOf subj, sj_body = body, sj_type = type,
         enqueuedAt = clock env (uuidCount s)\<rparr>] \<and>
     processQueue fuel env (enqueueJob env (validRecipients to) (smtpSubjectOf subj) body type s)
       = Some ([Inl e], s') \<and>
     emailQueue s' = [] \<and>
     persistedQueue s' = removeFirstId (randomUUID env (uuidCount s))
       (persistedQueue (enqueueJob env (validRecipients to) (smtpSubjectOf subj) body type s)) \<and>
     sendMailCalls s' = sendMailCalls s \<and>
     totalFailed s' = totalFailed s + length (validRecipients to)"
proof -
  let ?rs = "validRecipients to"
  let ?subj = "smtpSubjectOf subj"
  let ?s1 = "enqueueJob env ?rs ?subj body type s"
  let ?job = "\<lparr>job_id = randomUUID env (uuidCount s), job_recipients = ?rs,
         job_subject = ?subj, job_body = body, job_type = type\<rparr>"
  let ?s2 = "?s1\<lparr>isProcessingQueue := True\<rparr>\<lparr>emailQueue := []\<rparr>"
  have q: "emailQueue ?s1 = [?job]" using idle(1) by (simp add: enqueueJob_queue)
  have none2: "fst (getTransport env [] ?s2) = None"
    using none getTransport_found_indep by metis
  from deliverEmailJob_no_transport [OF nodry none2, of fuel ?rs ?subj body type]
  obtain e s3 where
    d: "deliverEmailJob fuel env ?rs ?subj body type ?s2 = Some (Inl e, s3)"
    and e: "permanent e" "es_code e = None"
      "summary e = Some \<lparr>subject = ?subj, attempted = length ?rs, sent = 0, failed = length ?rs,
              errors = [\<lparr>bf_code = ''transport_unavailable'', bf_message = es_message e,
                         bf_recipients = ?rs\<rparr>]\<rparr>"
    and s3: "emailQueue s3 = emailQueue ?s2" "persistedQueue s3 = persistedQueue ?s2"
      "sendMailCalls s3 = sendMailCalls ?s2" "totalFailed s3 = totalFailed ?s2 + length ?rs"
    by blast
  have w: "deliverWithRetry fuel env ?job 1 ?s2 = Some (Inl e, s3)"
    using d e(1) by (subst deliverWithRetry.simps) simp
  let ?s4 = "removePersistedJob (job_id ?job) s3"
  have rj: "runJobs fuel env [?job] ?s2 = Some ([Inl e], ?s4)"
    using w by simp
  have td: "take (MAX_CONCURRENT env) [?job] = [?job]" "drop (MAX_CONCURRENT env) [?job] = []"
    using take_singleton [OF MAX_CONCURRENT_pos, of env ?job] by simp_all
  have pr: "processRounds fuel env [?job] (?s1\<lparr>isProcessingQueue := True\<rparr>) = Some ([Inl e], ?s4)"
    using rj by (simp add: processRounds_unfold td processRounds_Nil)
  let ?s' = "?s4\<lparr>isProcessingQueue := False\<rparr>"
  have pq: "processQueue fuel env ?s1 = Some ([Inl e], ?s')"
    using pr q idle(2) by (simp add: processQueue_def enqueueJob_queue)
  have en: "enqueueEmailJob fuel env ?rs ?subj body type s = Some (Inl e, ?s')"
    using pq by (simp add: enqueueEmailJob_def)
  have se: "sendEmail fuel env to subj body type s = Some (Inl e, ?s')"
    using en e(3) valid by (simp add: sendEmail_nonempty)
  have f1: "emailQueue ?s' = []" using s3(1) by simp
  have f2: "persistedQueue ?s' = removeFirstId (randomUUID env (uuidCount s)) (persistedQueue ?s1)"
    using s3(2) by simp
  have f3: "sendMailCalls ?s' = sendMailCalls s"
    using s3(3) by (simp add: enqueueJob_def addPersistedJob_def Let_def)
  have f4: "totalFailed ?s' = totalFailed s + length ?rs"
    using s3(4) by (simp add: enqueueJob_def addPersistedJob_def Let_def)
  have p: "persistedQueue ?s1 = persistedQueue s @
       [\<lparr>sj_id = randomUUID env (uuidCount s), sj_recipients = ?rs,
         sj_subject = ?subj, sj_body = body, sj_type = type,
         enqueuedAt = clock env (uuidCount s)\<rparr>]"
    by (simp add: enqueueJob_queue)
  show ?thesis
    using se e q p pq f1 f2 f3 f4 by blast
qed

text \<open>
  Claim C4 as stated fails: with \<open>SMTP_DISABLE\<close> set no transport is resolved, and yet the
  job of \<open>sendEmail("a@x.com", ...)\<close> stands in the queue and in the persisted queue
  before the drainer, run on that state, settles it with the error the call throws.
\<close>

theorem sendEmail_no_transport_counterexample:
  "fst (getTransport ((example_env timeoutOnce)\<lparr>SMTP_DISABLE := True\<rparr>) [] idleEngine) = None \<and>
   map sj_recipients (persistedQueue (enqueueJob ((example_env timeoutOnce)\<lparr>SMTP_DISABLE := True\<rparr>)
      (validRecipients (One (Str ''a@x.com''))) (smtpSubjectOf ''Sujet'') ''Contenu'' None idleEngine))
     = [[''a@x.com'']] \<and>
   map job_recipients (emailQueue (enqueueJob ((example_env timeoutOnce)\<lparr>SMTP_DISABLE := True\<rparr>)
      (validRecipients (One (Str ''a@x.com''))) (smtpSubjectOf ''Sujet'') ''Contenu'' None idleEngine))
     = [[''a@x.com'']] \<and>
   map_option fst (processQueue 0 ((example_env timeoutOnce)\<lparr>SMTP_DISABLE := True\<rparr>)
        (enqueueJob ((example_env timeoutOnce)\<lparr>SMTP_DISABLE := True\<rparr>)
           (validRecipients (One (Str ''a@x.com''))) (smtpSubjectOf ''Sujet'') ''Contenu'' None
           idleEngine)) =
     Some [Inl \<lparr>es_message = ''SMTP transport unavailable'', es_code = None, permanent = True,
       summary = Some \<lparr>subject = ''Sujet'', attempted = 1, sent = 0, failed = 1,
         errors = [\<lparr>bf_code = ''transport_unavailable'',
                    bf_message = ''SMTP transport unavailable'',
                    bf_recipients = [''a@x.com'']\<rparr>]\<rparr>\<rparr>] \<and>
   map_option fst (sendEmail 0 ((example_env timeoutOnce)\<lparr>SMTP_DISABLE := True\<rparr>)
      (One (Str ''a@x.com'')) ''Sujet'' ''Contenu'' None idleEngine) =
     Some (Inl \<lparr>es_message = ''SMTP transport unavailable'', es_code = None, permanent = True,
       summary = Some \<lparr>subject = ''Sujet'', attempted = 1, sent = 0, failed = 1,
         errors = [\<lparr>bf_code = ''transport_unavailable'',
                    bf_message = ''SMTP transport unavailable'',
                    bf_recipients = [''a@x.com'']\<rparr>]\<rparr>\<rparr>)"
  by code_simp


theorem sendEmail_no_transport_witness:
  "validRecipients (One (Str ''a@x.com'')) \<noteq> [] \<and>
   \<not> dryRun ((example_env timeoutOnce)\<lparr>SMTP_DISABLE := True\<rparr>) \<and>
   fst (getTransport ((example_env timeoutOnce)\<lparr>SMTP_DISABLE := True\<rparr>) [] idleEngine) = None \<and>
   emailQueue idleEngine = [] \<and> \<not> isProcessingQueue idleEngine \<and>
   (\<exists>e s'. sendEmail 0 ((example_env timeoutOnce)\<lparr>SMTP_DISABLE := True\<rparr>)
              (One (Str ''a@x.com'')) ''Sujet'' ''Contenu'' None idleEngine = Some (Inl e, s') \<and>
            permanent e \<and> es_code e = None \<and> emailQueue s' = [] \<and>
            sendMailCalls s' = sendMailCalls idleEngine)"
proof -
  let ?env = "(example_env timeoutOnce)\<lparr>SMTP_DISABLE := True\<rparr>"
  have v: "validRecipients (One (Str ''a@x.com'')) \<noteq> []" by code_simp
  have d: "\<not> dryRun ?env" by (simp add: example_env_def)
  have g: "fst (getTransport ?env [] idleEngine) = None"
    by (simp add: getTransport_def example_env_def)
  have i: "emailQueue idleEngine = []" "\<not> isProcessingQueue idleEngine"
    by (simp_all add: idleEngine_def)
  from sendEmail_no_transport [OF v d g i, of 0 "''Sujet''" "''Contenu''" None]
  have "\<exists>e s'. sendEmail 0 ?env (One (Str ''a@x.com'')) ''Sujet'' ''Contenu'' None idleEngine
            = Some (Inl e, s') \<and>
          permanent e \<and> es_code e = None \<and> emailQueue s' = [] \<and>
          sendMailCalls s' = sendMailCalls idleEngine"
    by blast
  then show ?thesis using v d g i by blast
qed

subsection \<open>The end of a call\<close>



















end
